theory Spec2Isabelle
  imports Main "HOL-Library.Log_Nat" "HOL-Library.AList"
begin

section \<open>Python floats\<close>

text \<open>
  The benchmark computes with Python floats (IEEE-754 doubles).  A double is modelled by
  the rational number it denotes, and every arithmetic operation by the exact result
  rounded to the nearest double, ties to even (\<open>fl\<close>).  Doubles have a 53-bit
  significand; overflow, subnormals, infinities and NaN are not modelled (the sizes,
  counts and clock readings of the program are far from those ranges).
\<close>

definition round_half_even :: "rat \<Rightarrow> int" where
  "round_half_even y =
     (let f = \<lfloor>y\<rfloor>; r = y - of_int f
      in if r < 1 / 2 then f else if 1 / 2 < r then f + 1 else if even f then f else f + 1)"

text \<open>The binary exponent of a positive rational: \<open>2 powi ilog2 x \<le> x < 2 powi (ilog2 x + 1)\<close>.\<close>

definition ilog2 :: "rat \<Rightarrow> int" where
  "ilog2 x = (if 1 \<le> x then bitlen \<lfloor>x\<rfloor> - 1 else - bitlen (\<lceil>1 / x\<rceil> - 1))"

definition fl_pos :: "rat \<Rightarrow> rat" where
  "fl_pos x = (let u = 2 powi (ilog2 x - 52) in of_int (round_half_even (x / u)) * u)"

definition fl :: "rat \<Rightarrow> rat" where
  "fl x = (if x = 0 then 0 else if 0 < x then fl_pos x else - fl_pos (- x))"

datatype error =
    TopicAlreadyExistsError
  | KafkaTimeoutError
  | KafkaError
  | FileNotFoundError
  | StatisticsError
  | ZeroDivisionError
  | KeyError
  | IndexError

text \<open>\<open>float(n)\<close> for an integer, and the float operators; \<open>/\<close> raises on a zero divisor.\<close>

definition py_float :: "int \<Rightarrow> rat" where
  "py_float n = fl (of_int n)"

definition fsub :: "rat \<Rightarrow> rat \<Rightarrow> rat" where
  "fsub a b = fl (a - b)"

definition fmul :: "rat \<Rightarrow> rat \<Rightarrow> rat" where
  "fmul a b = fl (a * b)"

definition fdiv :: "rat \<Rightarrow> rat \<Rightarrow> error + rat" where
  "fdiv a b = (if b = 0 then Inl ZeroDivisionError else Inr (fl (a / b)))"

text \<open>\<open>int(x)\<close> truncates towards zero.\<close>

definition py_int :: "rat \<Rightarrow> int" where
  "py_int x = (if 0 \<le> x then \<lfloor>x\<rfloor> else \<lceil>x\<rceil>)"

text \<open>A decimal literal denotes the double nearest to it.\<close>

definition lit_0_95 :: rat where "lit_0_95 = fl (95 / 100)"
definition lit_0_99 :: rat where "lit_0_99 = fl (99 / 100)"
definition lit_0_40 :: rat where "lit_0_40 = fl (40 / 100)"
definition lit_0_35 :: rat where "lit_0_35 = fl (35 / 100)"
definition lit_0_25 :: rat where "lit_0_25 = fl (25 / 100)"

section \<open>The environment: clock, files, broker\<close>

text \<open>
  A workload record is a parsed JSON object.  The program observes two things of it: the
  text \<open>json.dumps\<close> gives for it, and its \<open>turbine_type\<close> field (absent: \<open>None\<close>).
\<close>

record hydro_record =
  dumps :: string
  turbine_type :: "string option"

datatype pyval = PInt int | PFloat rat | PStr string

type_synonym pydict = "(string \<times> pyval) list"

datatype message =
    TopicCreated string
  | TopicExists string
  | RunGeneratorFirst
  | ErrorMessage error
  | TestingSucceeded
  | Report "(string \<times> pydict list) list"

datatype event =
    CreateTopic string nat nat
  | AdminClose
  | ProducerOpen nat nat nat "string option"
  | Send nat string "string option" hydro_record
  | AckWait nat nat
  | Flush nat
  | ProducerClose nat
  | Sleep nat
  | Print message

text \<open>
  What is modelled of the outside world.  Creating a topic succeeds, finds the topic
  present, or meets another administrative failure; opening the workload file succeeds or
  finds no file; waiting for an acknowledgment succeeds or raises.  Opening, flushing and
  closing a producer, \<open>send\<close> itself and \<open>sleep\<close> do not fail.  The lines of
  progress the sweeps print (formatted numbers) are left out; the messages of
  \<open>create_topics\<close>, of the report and of the handlers of \<open>main\<close> are events.
\<close>

text \<open>
  The state threaded through the program.  \<open>clock\<close> lists the readings of \<open>time.time()\<close>
  in call order and \<open>ticks\<close> counts the readings taken; \<open>files\<close> is the file system;
  \<open>existing\<close> the broker's topics; \<open>admin_fault\<close> the administrative failure (other than
  the topic existing) that creating a topic of that name meets; \<open>ack_fault\<close> the failure
  of the i-th acknowledgment wait (\<open>future.get(timeout=10)\<close>) and \<open>waits\<close> the number of
  waits made; \<open>opened\<close> the number of producers opened; \<open>trace\<close> the external actions in
  order; \<open>test_results\<close> the attribute of \<open>HydroKafkaTester\<close>.
\<close>

record state =
  clock :: "nat \<Rightarrow> rat"
  ticks :: nat
  files :: "string \<Rightarrow> hydro_record list option"
  existing :: "string list"
  admin_fault :: "string \<Rightarrow> error option"
  ack_fault :: "nat \<Rightarrow> error option"
  waits :: nat
  opened :: nat
  trace :: "event list"
  test_results :: "(string \<times> pydict list) list"

type_synonym 'a io = "state \<Rightarrow> (error + 'a) \<times> state"

definition io_return :: "'a \<Rightarrow> 'a io" where
  "io_return a s = (Inr a, s)"

definition io_raise :: "error \<Rightarrow> 'a io" where
  "io_raise e s = (Inl e, s)"

text \<open>Sequencing: an exception of the first action skips the rest.\<close>

definition io_bind :: "'a io \<Rightarrow> ('a \<Rightarrow> 'b io) \<Rightarrow> 'b io" where
  "io_bind m f s = (case m s of (Inl e, s') \<Rightarrow> (Inl e, s') | (Inr a, s') \<Rightarrow> f a s')"

definition io_lift :: "error + 'a \<Rightarrow> 'a io" where
  "io_lift r s = (r, s)"

definition emit :: "event \<Rightarrow> state \<Rightarrow> state" where
  "emit e s = s\<lparr>trace := trace s @ [e]\<rparr>"

definition print :: "message \<Rightarrow> unit io" where
  "print m s = (Inr (), emit (Print m) s)"

definition sleep :: "nat \<Rightarrow> unit io" where
  "sleep n s = (Inr (), emit (Sleep n) s)"

definition time :: "rat io" where
  "time s = (Inr (clock s (ticks s)), s\<lparr>ticks := Suc (ticks s)\<rparr>)"

definition read_records :: "string \<Rightarrow> hydro_record list io" where
  "read_records data_file s =
     (case files s data_file of None \<Rightarrow> (Inl FileNotFoundError, s) | Some rs \<Rightarrow> (Inr rs, s))"

subsection \<open>The producer\<close>

definition producer_open :: "nat \<Rightarrow> nat \<Rightarrow> string option \<Rightarrow> nat io" where
  "producer_open batch_size linger_ms compression_type s =
     (Inr (opened s),
      emit (ProducerOpen (opened s) batch_size linger_ms compression_type)
        (s\<lparr>opened := Suc (opened s)\<rparr>))"

definition producer_send :: "nat \<Rightarrow> string \<Rightarrow> string option \<Rightarrow> hydro_record \<Rightarrow> unit io" where
  "producer_send p topic k v s = (Inr (), emit (Send p topic k v) s)"

definition future_get :: "nat \<Rightarrow> nat \<Rightarrow> unit io" where
  "future_get p timeout s =
     (let s' = emit (AckWait p timeout) (s\<lparr>waits := Suc (waits s)\<rparr>)
      in case ack_fault s (waits s) of Some e \<Rightarrow> (Inl e, s') | None \<Rightarrow> (Inr (), s'))"

definition producer_flush :: "nat \<Rightarrow> unit io" where
  "producer_flush p s = (Inr (), emit (Flush p) s)"

definition producer_close :: "nat \<Rightarrow> unit io" where
  "producer_close p s = (Inr (), emit (ProducerClose p) s)"

subsection \<open>The administrative client\<close>

text \<open>\<open>NewTopic\<close>; the fields carry the prefix \<open>nt_\<close>.\<close>

record new_topic =
  nt_name :: string
  nt_num_partitions :: nat
  nt_replication_factor :: nat
  nt_topic_configs :: "(string \<times> string) list"

definition admin_create_topics :: "new_topic \<Rightarrow> unit io" where
  "admin_create_topics t s =
     (let s' = emit (CreateTopic (nt_name t) (nt_num_partitions t) (nt_replication_factor t)) s
      in case admin_fault s (nt_name t) of
           Some e \<Rightarrow> (Inl e, s')
         | None \<Rightarrow>
             if nt_name t \<in> set (existing s) then (Inl TopicAlreadyExistsError, s')
             else (Inr (), s'\<lparr>existing := existing s @ [nt_name t]\<rparr>))"

definition admin_close :: "unit io" where
  "admin_close s = (Inr (), emit AdminClose s)"

section \<open>HydroKafkaTester\<close>

subsection \<open>create_topics\<close>

definition topics :: "new_topic list" where
  "topics =
     [\<lparr>nt_name = ''hydro-main'', nt_num_partitions = 4, nt_replication_factor = 1,
        nt_topic_configs = [(''retention.ms'', ''2592000000'')]\<rparr>,
      \<lparr>nt_name = ''hydro-batch-test'', nt_num_partitions = 3, nt_replication_factor = 1, nt_topic_configs = []\<rparr>,
      \<lparr>nt_name = ''hydro-comp-none'', nt_num_partitions = 3, nt_replication_factor = 1, nt_topic_configs = []\<rparr>,
      \<lparr>nt_name = ''hydro-comp-snappy'', nt_num_partitions = 3, nt_replication_factor = 1, nt_topic_configs = []\<rparr>,
      \<lparr>nt_name = ''hydro-comp-lz4'', nt_num_partitions = 3, nt_replication_factor = 1, nt_topic_configs = []\<rparr>,
      \<lparr>nt_name = ''hydro-comp-zstd'', nt_num_partitions = 3, nt_replication_factor = 1, nt_topic_configs = []\<rparr>,
      \<lparr>nt_name = ''hydro-part-2'', nt_num_partitions = 2, nt_replication_factor = 1, nt_topic_configs = []\<rparr>,
      \<lparr>nt_name = ''hydro-part-4'', nt_num_partitions = 4, nt_replication_factor = 1, nt_topic_configs = []\<rparr>,
      \<lparr>nt_name = ''hydro-part-8'', nt_num_partitions = 8, nt_replication_factor = 1, nt_topic_configs = []\<rparr>,
      \<lparr>nt_name = ''hydro-analytics'', nt_num_partitions = 8, nt_replication_factor = 1,
        nt_topic_configs = [(''retention.ms'', ''31536000000''), (''segment.ms'', ''86400000''),
                         (''cleanup.policy'', ''delete'')]\<rparr>]"

text \<open>The loop over the topics: \<open>TopicAlreadyExistsError\<close> is caught, nothing else is.\<close>

fun create_topics_loop :: "new_topic list \<Rightarrow> unit io" where
  "create_topics_loop [] s = (Inr (), s)"
| "create_topics_loop (t # ts) s =
     (case admin_create_topics t s of
        (Inr _, s') \<Rightarrow> create_topics_loop ts (emit (Print (TopicCreated (nt_name t))) s')
      | (Inl e, s') \<Rightarrow>
          if e = TopicAlreadyExistsError
          then create_topics_loop ts (emit (Print (TopicExists (nt_name t))) s')
          else (Inl e, s'))"

definition create_topics :: "unit io" where
  "create_topics = io_bind (create_topics_loop topics) (\<lambda>_. admin_close)"

subsection \<open>Library functions of the reduction\<close>

text \<open>
  \<open>statistics.mean\<close> raises on no data; on floats it rounds the exact mean once.
  \<open>a / b\<close> on two integers is the correctly rounded quotient.  Indexing a list raises
  out of range; a negative index counts from the end.  \<open>d[key] = v\<close> is \<open>AList.update\<close>.
\<close>

definition mean :: "rat list \<Rightarrow> error + rat" where
  "mean xs = (if xs = [] then Inl StatisticsError
              else Inr (fl (sum_list xs / of_nat (length xs))))"

definition idiv :: "int \<Rightarrow> int \<Rightarrow> error + rat" where
  "idiv a b = (if b = 0 then Inl ZeroDivisionError else Inr (fl (of_int a / of_int b)))"

definition py_index :: "'a list \<Rightarrow> int \<Rightarrow> error + 'a" where
  "py_index xs i =
     (if 0 \<le> i \<and> i < int (length xs) then Inr (xs ! nat i)
      else if - int (length xs) \<le> i \<and> i < 0 then Inr (xs ! nat (int (length xs) + i))
      else Inl IndexError)"

definition str_nat :: "nat \<Rightarrow> string" where
  "str_nat n = (if n < 10 then [''0123456789'' ! n]
                else [''0123456789'' ! (n div 10 mod 10), ''0123456789'' ! (n mod 10)])"

definition set_test_results :: "string \<Rightarrow> pydict list \<Rightarrow> unit io" where
  "set_test_results k results s =
     (Inr (), s\<lparr>test_results := AList.update k results (test_results s)\<rparr>)"

subsection \<open>The synchronous send loop\<close>

text \<open>
  Lines 84--88 of \<open>test_batch_linger\<close> and 155--159 of \<open>test_compression\<close>: for each
  record, read the clock, send, wait for the acknowledgment (at most 10 seconds), read
  the clock and append the elapsed milliseconds.
\<close>

fun send_loop :: "nat \<Rightarrow> string \<Rightarrow> hydro_record list \<Rightarrow> rat list \<Rightarrow> rat list io" where
  "send_loop producer topic [] latencies s = (Inr latencies, s)"
| "send_loop producer topic (r # records) latencies s =
     io_bind time (\<lambda>send_start.
     io_bind (producer_send producer topic None r) (\<lambda>_.
     io_bind (future_get producer 10) (\<lambda>_.
     io_bind time (\<lambda>t.
     send_loop producer topic records
       (latencies @ [fmul (fsub t send_start) (py_float 1000)]))))) s"

subsection \<open>test_batch_linger\<close>

definition configs :: "(nat \<times> nat) list" where
  "configs = [(16384, 0), (65536, 10), (262144, 50), (524288, 100), (1048576, 200),
              (1048576, 500)]"

text \<open>The reduction of one run (lines 93--107).\<close>

definition batch_linger_metrics ::
  "nat \<Rightarrow> nat \<Rightarrow> hydro_record list \<Rightarrow> rat list \<Rightarrow> rat \<Rightarrow> rat \<Rightarrow> error + pydict" where
  "batch_linger_metrics batch_size linger_ms records latencies start endt =
     (let duration = fsub endt start in
      case fdiv (py_float (int (length (take 1000 records)))) duration of
        Inl e \<Rightarrow> Inl e
      | Inr throughput \<Rightarrow>
      case mean latencies of
        Inl e \<Rightarrow> Inl e
      | Inr avg_latency \<Rightarrow>
      case py_index (sort latencies)
             (py_int (fmul (py_float (int (length latencies))) lit_0_95)) of
        Inl e \<Rightarrow> Inl e
      | Inr p95_latency \<Rightarrow>
      case py_index (sort latencies)
             (py_int (fmul (py_float (int (length latencies))) lit_0_99)) of
        Inl e \<Rightarrow> Inl e
      | Inr p99_latency \<Rightarrow>
          Inr [(''batch_size'', PInt (int batch_size)),
               (''linger_ms'', PInt (int linger_ms)),
               (''throughput'', PFloat throughput),
               (''avg_latency'', PFloat avg_latency),
               (''p95_latency'', PFloat p95_latency),
               (''p99_latency'', PFloat p99_latency),
               (''duration'', PFloat duration)])"

text \<open>One configuration (lines 68--116).\<close>

definition batch_linger_run :: "string \<Rightarrow> nat \<times> nat \<Rightarrow> pydict io" where
  "batch_linger_run data_file cfg =
     (case cfg of (batch_size, linger_ms) \<Rightarrow>
      io_bind (producer_open batch_size linger_ms (Some ''lz4'')) (\<lambda>producer.
      io_bind (read_records data_file) (\<lambda>records.
      io_bind time (\<lambda>start.
      io_bind (send_loop producer ''hydro-batch-test'' (take 1000 records) []) (\<lambda>latencies.
      io_bind (producer_flush producer) (\<lambda>_.
      io_bind time (\<lambda>endt.
      io_bind (io_lift (batch_linger_metrics batch_size linger_ms records latencies start endt))
        (\<lambda>result.
      io_bind (producer_close producer) (\<lambda>_.
      io_bind (sleep 2) (\<lambda>_.
      io_return result))))))))))"

fun batch_linger_loop :: "string \<Rightarrow> (nat \<times> nat) list \<Rightarrow> pydict list \<Rightarrow> pydict list io" where
  "batch_linger_loop data_file [] results s = (Inr results, s)"
| "batch_linger_loop data_file (cfg # cfgs) results s =
     io_bind (batch_linger_run data_file cfg) (\<lambda>result.
     batch_linger_loop data_file cfgs (results @ [result])) s"

definition test_batch_linger :: "string \<Rightarrow> pydict list io" where
  "test_batch_linger data_file =
     io_bind (batch_linger_loop data_file configs []) (\<lambda>results.
     io_bind (set_test_results ''batch_linger'' results) (\<lambda>_.
     io_return results))"

subsection \<open>test_compression\<close>

definition algorithms :: "string list" where
  "algorithms = [''none'', ''snappy'', ''lz4'', ''zstd'']"

definition compression_factors :: "(string \<times> rat) list" where
  "compression_factors = [(''snappy'', lit_0_40), (''lz4'', lit_0_35), (''zstd'', lit_0_25)]"

text \<open>\<open>compression_factors.get(algo, 1.0)\<close>.\<close>

definition factor_get :: "string \<Rightarrow> rat" where
  "factor_get algo = (case map_of compression_factors algo of Some f \<Rightarrow> f | None \<Rightarrow> 1)"

text \<open>Line 132: the serialised size of the sample.\<close>

definition original_size_of :: "hydro_record list \<Rightarrow> int" where
  "original_size_of records = sum_list (map (\<lambda>r. int (length (dumps r))) records)"

text \<open>Lines 165--175: the size model.\<close>

definition compression_model :: "string \<Rightarrow> int \<Rightarrow> error + int \<times> rat" where
  "compression_model algo original_size =
     (if algo = ''none'' then Inr (original_size, 0)
      else
        let compressed_size = py_int (fmul (py_float original_size) (factor_get algo)) in
        case idiv compressed_size original_size of
          Inl e \<Rightarrow> Inl e
        | Inr q \<Rightarrow> Inr (compressed_size, fmul (fsub (py_float 1) q) (py_float 100)))"

text \<open>\<open>x / 1024 / 1024\<close> for an integer \<open>x\<close>.\<close>

definition to_mb :: "int \<Rightarrow> rat" where
  "to_mb x = fl (fl (of_int x / 1024) / 1024)"

text \<open>The reduction of one run (lines 162--184).\<close>

definition compression_metrics ::
  "string \<Rightarrow> hydro_record list \<Rightarrow> int \<Rightarrow> rat list \<Rightarrow> rat \<Rightarrow> rat \<Rightarrow> error + pydict" where
  "compression_metrics algo records original_size latencies start endt =
     (let duration = fsub endt start in
      case fdiv (py_float (int (length records))) duration of
        Inl e \<Rightarrow> Inl e
      | Inr throughput \<Rightarrow>
      case mean latencies of
        Inl e \<Rightarrow> Inl e
      | Inr avg_latency \<Rightarrow>
      case compression_model algo original_size of
        Inl e \<Rightarrow> Inl e
      | Inr (compressed_size, ratio) \<Rightarrow>
          Inr [(''algorithm'', PStr algo),
               (''throughput'', PFloat throughput),
               (''avg_latency'', PFloat avg_latency),
               (''original_size_mb'', PFloat (to_mb original_size)),
               (''compressed_size_mb'', PFloat (to_mb compressed_size)),
               (''compression_ratio'', PFloat ratio),
               (''network_saved_mb'', PFloat (to_mb (original_size - compressed_size)))])"

text \<open>One codec (lines 135--193).\<close>

definition compression_run :: "hydro_record list \<Rightarrow> int \<Rightarrow> string \<Rightarrow> pydict io" where
  "compression_run records original_size algo =
     (let topic = ''hydro-comp-'' @ algo in
      io_bind (if algo = ''none'' then producer_open 262144 50 None
               else producer_open 262144 50 (Some algo)) (\<lambda>producer.
      io_bind time (\<lambda>start.
      io_bind (send_loop producer topic records []) (\<lambda>latencies.
      io_bind (producer_flush producer) (\<lambda>_.
      io_bind time (\<lambda>endt.
      io_bind (io_lift (compression_metrics algo records original_size latencies start endt))
        (\<lambda>result.
      io_bind (producer_close producer) (\<lambda>_.
      io_bind (sleep 2) (\<lambda>_.
      io_return result)))))))))"

fun compression_loop ::
  "hydro_record list \<Rightarrow> int \<Rightarrow> string list \<Rightarrow> pydict list \<Rightarrow> pydict list io" where
  "compression_loop records original_size [] results s = (Inr results, s)"
| "compression_loop records original_size (algo # algos) results s =
     io_bind (compression_run records original_size algo) (\<lambda>result.
     compression_loop records original_size algos (results @ [result])) s"

definition test_compression :: "string \<Rightarrow> pydict list io" where
  "test_compression data_file =
     io_bind (read_records data_file) (\<lambda>all_records.
     let records = take 3000 all_records;
         original_size = original_size_of records in
     io_bind (compression_loop records original_size algorithms []) (\<lambda>results.
     io_bind (set_test_results ''compression'' results) (\<lambda>_.
     io_return results)))"

subsection \<open>test_partitioning\<close>

definition partition_counts :: "nat list" where
  "partition_counts = [2, 4, 8]"

text \<open>Lines 226--228: every record is sent with its key; no acknowledgment is awaited.\<close>

fun keyed_send_loop :: "nat \<Rightarrow> string \<Rightarrow> hydro_record list \<Rightarrow> unit io" where
  "keyed_send_loop producer topic [] s = (Inr (), s)"
| "keyed_send_loop producer topic (r # records) s =
     (case turbine_type r of
        None \<Rightarrow> (Inl KeyError, s)
      | Some k \<Rightarrow>
          io_bind (producer_send producer topic (Some k) r) (\<lambda>_.
          keyed_send_loop producer topic records) s)"

text \<open>The reduction of one run (lines 233--247), with the baseline it leaves.\<close>

definition partitioning_metrics ::
  "nat \<Rightarrow> hydro_record list \<Rightarrow> rat option \<Rightarrow> rat \<Rightarrow> rat \<Rightarrow> error + pydict \<times> rat option" where
  "partitioning_metrics num_partitions records baseline_throughput start endt =
     (let duration = fsub endt start in
      case fdiv (py_float (int (length records))) duration of
        Inl e \<Rightarrow> Inl e
      | Inr throughput \<Rightarrow>
      case (case baseline_throughput of
              None \<Rightarrow> Inr (Some throughput, 1)
            | Some b \<Rightarrow>
                (case fdiv throughput b of Inl e \<Rightarrow> Inl e
                 | Inr q \<Rightarrow> Inr (baseline_throughput, q))) of
        Inl e \<Rightarrow> Inl e
      | Inr (baseline', scaling_factor) \<Rightarrow>
          Inr ([(''partitions'', PInt (int num_partitions)),
                (''throughput'', PFloat throughput),
                (''duration'', PFloat duration),
                (''scaling_factor'', PFloat scaling_factor)], baseline'))"

text \<open>One partition count (lines 212--255).\<close>

definition partitioning_run ::
  "hydro_record list \<Rightarrow> rat option \<Rightarrow> nat \<Rightarrow> (pydict \<times> rat option) io" where
  "partitioning_run records baseline_throughput num_partitions =
     (let topic = ''hydro-part-'' @ str_nat num_partitions in
      io_bind (producer_open 262144 50 (Some ''lz4'')) (\<lambda>producer.
      io_bind time (\<lambda>start.
      io_bind (keyed_send_loop producer topic records) (\<lambda>_.
      io_bind (producer_flush producer) (\<lambda>_.
      io_bind time (\<lambda>endt.
      io_bind (io_lift (partitioning_metrics num_partitions records baseline_throughput
                          start endt)) (\<lambda>res.
      io_bind (producer_close producer) (\<lambda>_.
      io_bind (sleep 2) (\<lambda>_.
      io_return res)))))))))"

text \<open>The loop (lines 211--255); \<open>baseline_throughput\<close> is carried from run to run.\<close>

fun partitioning_loop ::
  "hydro_record list \<Rightarrow> rat option \<Rightarrow> nat list \<Rightarrow> pydict list \<Rightarrow> (pydict list \<times> rat option) io"
  where
  "partitioning_loop records baseline_throughput [] results s =
     (Inr (results, baseline_throughput), s)"
| "partitioning_loop records baseline_throughput (n # rest) results s =
     io_bind (partitioning_run records baseline_throughput n) (\<lambda>res.
     partitioning_loop records (snd res) rest (results @ [fst res])) s"

definition test_partitioning :: "string \<Rightarrow> pydict list io" where
  "test_partitioning data_file =
     io_bind (read_records data_file) (\<lambda>all_records.
     let records = take 4000 all_records in
     io_bind (partitioning_loop records None partition_counts []) (\<lambda>res.
     io_bind (set_test_results ''partitioning'' (fst res)) (\<lambda>_.
     io_return (fst res))))"

subsection \<open>generate_report and main\<close>

definition generate_report :: "unit io" where
  "generate_report s = print (Report (test_results s)) s"

text \<open>
  How the process ends: \<open>main\<close> returns (exit status 0), or an exception leaves it
  uncaught (traceback, exit status 1).
\<close>

datatype outcome = Returned | Uncaught error

definition exit_status :: "outcome \<Rightarrow> nat" where
  "exit_status out = (case out of Returned \<Rightarrow> 0 | Uncaught _ \<Rightarrow> 1)"

text \<open>Lines 302--309: the body of the \<open>try\<close>.\<close>

definition main_body :: "unit io" where
  "main_body =
     io_bind (test_batch_linger ''hydro_test_1000.json'') (\<lambda>_.
     io_bind (test_compression ''hydro_test_1000.json'') (\<lambda>_.
     io_bind (test_partitioning ''hydro_test_1000.json'') (\<lambda>_.
     io_bind generate_report (\<lambda>_.
     print TestingSucceeded))))"

definition main :: "state \<Rightarrow> outcome \<times> state" where
  "main s0 =
     (case create_topics (s0\<lparr>test_results := []\<rparr>) of
        (Inl e, s1) \<Rightarrow> (Uncaught e, s1)
      | (Inr _, s1) \<Rightarrow>
          (case io_bind (sleep 3) (\<lambda>_. main_body) s1 of
             (Inr _, s2) \<Rightarrow> (Returned, s2)
           | (Inl e, s2) \<Rightarrow>
               if e = FileNotFoundError then (Returned, emit (Print RunGeneratorFirst) s2)
               else (Returned, emit (Print (ErrorMessage e)) s2)))"

subsection \<open>Vocabulary of the properties\<close>

text \<open>The events of provisioning, and what provisioning a list of topics emits when every
  topic is absent, or every topic present.\<close>

fun provisioning_event :: "event \<Rightarrow> bool" where
  "provisioning_event (CreateTopic _ _ _) = True"
| "provisioning_event (Print (TopicCreated _)) = True"
| "provisioning_event (Print (TopicExists _)) = True"
| "provisioning_event _ = False"

definition provisioning_events :: "new_topic list \<Rightarrow> bool \<Rightarrow> event list" where
  "provisioning_events ts present =
     concat (map (\<lambda>t. [CreateTopic (nt_name t) (nt_num_partitions t) (nt_replication_factor t),
                        Print ((if present then TopicExists else TopicCreated) (nt_name t))]) ts)"

text \<open>
  A concrete environment for the examples: the clock advances by one second per reading,
  the broker starts without topics, and the file system, the administrative faults and
  the acknowledgment faults are as given.
\<close>

definition initial_state ::
  "(string \<Rightarrow> hydro_record list option) \<Rightarrow> (string \<Rightarrow> error option) \<Rightarrow> (nat \<Rightarrow> error option) \<Rightarrow> state" where
  "initial_state fs af kf =
     \<lparr>clock = (\<lambda>i. of_nat i), ticks = 0, files = fs, existing = [], admin_fault = af,
      ack_fault = kf, waits = 0, opened = 0, trace = [], test_results = []\<rparr>"

definition no_file :: "string \<Rightarrow> hydro_record list option" where
  "no_file = (\<lambda>_. None)"

definition no_fault :: "'a \<Rightarrow> error option" where
  "no_fault = (\<lambda>_. None)"

definition fault_at :: "'a \<Rightarrow> error \<Rightarrow> 'a \<Rightarrow> error option" where
  "fault_at k e = (\<lambda>i. if i = k then Some e else None)"

text \<open>
  The vocabulary of runs.  \<open>run_event\<close>: the producer actions between opening and closing.
  \<open>sync_events\<close>: the actions of the synchronous loop on a sample.  \<open>latency_at s i\<close>:
  the latency sample of the i-th record of a loop started in \<open>s\<close>.  \<open>step_to\<close>: the
  second state is the first after so many clock readings, acknowledgment waits and
  producers opened, with these events appended and nothing else changed.
\<close>

fun run_event :: "event \<Rightarrow> bool" where
  "run_event (Send _ _ _ _) = True"
| "run_event (AckWait _ _) = True"
| "run_event (Flush _) = True"
| "run_event _ = False"

definition sync_events :: "nat \<Rightarrow> string \<Rightarrow> hydro_record list \<Rightarrow> event list" where
  "sync_events p topic rs = concat (map (\<lambda>r. [Send p topic None r, AckWait p 10]) rs)"

definition latency_at :: "state \<Rightarrow> nat \<Rightarrow> rat" where
  "latency_at s i =
     fmul (fsub (clock s (ticks s + 2 * i + 1)) (clock s (ticks s + 2 * i))) (py_float 1000)"

definition same_env :: "state \<Rightarrow> state \<Rightarrow> bool" where
  "same_env s s' \<longleftrightarrow>
     clock s' = clock s \<and> files s' = files s \<and> admin_fault s' = admin_fault s \<and>
     ack_fault s' = ack_fault s"

definition step_to :: "state \<Rightarrow> nat \<Rightarrow> nat \<Rightarrow> nat \<Rightarrow> event list \<Rightarrow> state \<Rightarrow> bool" where
  "step_to s dt dw dp evs s' \<longleftrightarrow>
     same_env s s' \<and> existing s' = existing s \<and> test_results s' = test_results s \<and>
     ticks s' = ticks s + dt \<and> waits s' = waits s + dw \<and> opened s' = opened s + dp \<and>
     trace s' = trace s @ evs"

definition kaplan_record :: hydro_record where
  \<open>kaplan_record =
     \<lparr>dumps = ''{"turbine_type": "kaplan"}'', turbine_type = Some ''kaplan''\<rparr>\<close>

definition one_file :: "hydro_record list \<Rightarrow> string \<Rightarrow> hydro_record list option" where
  "one_file rs = (\<lambda>f. if f = ''hydro_test_1000.json'' then Some rs else None)"

text \<open>
  The file \<open>main\<close> reads.  \<open>run_fails sweep s e s'\<close>: started in \<open>s\<close>, the body of
  \<open>main\<close> reaches a run of that sweep that raises \<open>e\<close> and leaves the state \<open>s'\<close>,
  every run and sweep before it having succeeded.
\<close>

definition workload_file :: string where
  "workload_file = ''hydro_test_1000.json''"

inductive run_fails :: "string \<Rightarrow> state \<Rightarrow> error \<Rightarrow> state \<Rightarrow> bool" where
  in_batch_linger:
    "configs = pre @ cfg # post \<Longrightarrow>
     batch_linger_loop workload_file pre [] s = (Inr acc, s1) \<Longrightarrow>
     batch_linger_run workload_file cfg s1 = (Inl e, s2) \<Longrightarrow>
     run_fails ''batch_linger'' s e s2"
| in_compression:
    "test_batch_linger workload_file s = (Inr res, s1) \<Longrightarrow>
     files s1 workload_file = Some rs \<Longrightarrow>
     algorithms = pre @ algo # post \<Longrightarrow>
     compression_loop (take 3000 rs) (original_size_of (take 3000 rs)) pre [] s1 = (Inr acc, s2) \<Longrightarrow>
     compression_run (take 3000 rs) (original_size_of (take 3000 rs)) algo s2 = (Inl e, s3) \<Longrightarrow>
     run_fails ''compression'' s e s3"
| in_partitioning:
    "test_batch_linger workload_file s = (Inr res, s1) \<Longrightarrow>
     test_compression workload_file s1 = (Inr res', s2) \<Longrightarrow>
     files s2 workload_file = Some rs \<Longrightarrow>
     partition_counts = pre @ n # post \<Longrightarrow>
     partitioning_loop (take 4000 rs) None pre [] s2 = (Inr (acc, bl), s3) \<Longrightarrow>
     partitioning_run (take 4000 rs) bl n s3 = (Inl e, s4) \<Longrightarrow>
     run_fails ''partitioning'' s e s4"

text \<open>One record in the workload file; the first acknowledgment wait times out.\<close>

definition timeout_state :: state where
  "timeout_state = initial_state (one_file [kaplan_record]) no_fault (fault_at 0 KafkaTimeoutError)"

text \<open>
  \<open>scaled_from b r\<close>: the result \<open>r\<close> has a throughput \<open>t\<close>, and its scaling factor is
  the float quotient of \<open>t\<close> by the nonzero baseline \<open>b\<close>.
\<close>

definition scaled_from :: "rat \<Rightarrow> pydict \<Rightarrow> bool" where
  "scaled_from b r =
     (case map_of r ''throughput'' of
        Some (PFloat t) \<Rightarrow> b \<noteq> 0 \<and> map_of r ''scaling_factor'' = Some (PFloat (fl (t / b)))
      | _ \<Rightarrow> False)"

text \<open>
  \<open>float_ratio c n\<close> is \<open>(1 - c / n) * 100\<close> evaluated in floating point, for integers
  \<open>c\<close> and \<open>n\<close>.  \<open>empty_object\<close> is the record \<open>{}\<close>.
\<close>

definition float_ratio :: "int \<Rightarrow> int \<Rightarrow> rat" where
  "float_ratio c n = fmul (fsub (py_float 1) (fl (of_int c / of_int n))) (py_float 100)"

definition empty_object :: hydro_record where
  "empty_object = \<lparr>dumps = ''{}'', turbine_type = None\<rparr>"

section \<open>Verified properties\<close>

subsection \<open>Provisioning\<close>

lemma admin_create_topics_cases:
  "admin_create_topics t s = (r, s') \<Longrightarrow>
     admin_fault s' = admin_fault s \<and> opened s' = opened s \<and>
     trace s' = trace s @ [CreateTopic (nt_name t) (nt_num_partitions t) (nt_replication_factor t)] \<and>
     set (existing s) \<subseteq> set (existing s') \<and>
     (case r of
        Inr _ \<Rightarrow> admin_fault s (nt_name t) = None \<and> nt_name t \<in> set (existing s')
      | Inl e \<Rightarrow> (admin_fault s (nt_name t) = Some e \<or>
                 admin_fault s (nt_name t) = None \<and> e = TopicAlreadyExistsError \<and> nt_name t \<in> set (existing s)) \<and> existing s' = existing s)"
  by (auto simp: admin_create_topics_def emit_def Let_def split: option.splits if_splits)

lemma create_topics_loop_frame:
  "create_topics_loop ts s = (r, s') \<Longrightarrow>
     admin_fault s' = admin_fault s \<and> opened s' = opened s \<and> set (existing s) \<subseteq> set (existing s') \<and>
     (\<exists>evs. trace s' = trace s @ evs \<and> list_all provisioning_event evs)"
proof (induction ts arbitrary: s)
  case Nil
  then show ?case by simp
next
  case (Cons t ts)
  obtain r1 s1 where a: "admin_create_topics t s = (r1, s1)" by (cases "admin_create_topics t s")
  note f = admin_create_topics_cases[OF a]
  show ?case
  proof (cases r1)
    case (Inr u)
    with Cons.prems a have "create_topics_loop ts (emit (Print (TopicCreated (nt_name t))) s1) = (r, s')" by simp
    from Cons.IH[OF this] f show ?thesis by (auto simp: emit_def)
  next
    case (Inl e)
    show ?thesis
    proof (cases "e = TopicAlreadyExistsError")
      case True
      with Inl Cons.prems a have "create_topics_loop ts (emit (Print (TopicExists (nt_name t))) s1) = (r, s')" by simp
      from Cons.IH[OF this] f show ?thesis by (auto simp: emit_def)
    next
      case False
      with Inl Cons.prems a have "s' = s1" "r = Inl e" by auto
      with f show ?thesis by auto
    qed
  qed
qed

lemma create_topics_loop_ok:
  "\<forall>t\<in>set ts. admin_fault s (nt_name t) = None \<or> admin_fault s (nt_name t) = Some TopicAlreadyExistsError \<Longrightarrow>
   fst (create_topics_loop ts s) = Inr ()"
proof (induction ts arbitrary: s)
  case Nil
  then show ?case by simp
next
  case (Cons t ts)
  obtain r1 s1 where a: "admin_create_topics t s = (r1, s1)" by (cases "admin_create_topics t s")
  note f = admin_create_topics_cases[OF a]
  have k: "\<And>m. \<forall>t\<in>set ts. admin_fault (emit (Print m) s1) (nt_name t) = None \<or> admin_fault (emit (Print m) s1) (nt_name t) = Some TopicAlreadyExistsError"
    using Cons.prems f by (simp add: emit_def)
  show ?case
  proof (cases r1)
    case (Inr u)
    then show ?thesis using a Cons.IH[OF k] by simp
  next
    case (Inl e)
    with f Cons.prems have "e = TopicAlreadyExistsError" by auto
    then show ?thesis using a Inl Cons.IH[OF k] by simp
  qed
qed

lemma create_topics_loop_fatal:
  "\<exists>t\<in>set ts. \<exists>e. admin_fault s (nt_name t) = Some e \<and> e \<noteq> TopicAlreadyExistsError \<Longrightarrow>
   \<exists>e. fst (create_topics_loop ts s) = Inl e \<and> e \<noteq> TopicAlreadyExistsError"
proof (induction ts arbitrary: s)
  case Nil
  then show ?case by simp
next
  case (Cons t ts)
  obtain r1 s1 where a: "admin_create_topics t s = (r1, s1)" by (cases "admin_create_topics t s")
  note f = admin_create_topics_cases[OF a]
  show ?case
  proof (cases "\<exists>e. admin_fault s (nt_name t) = Some e \<and> e \<noteq> TopicAlreadyExistsError")
    case True
    then obtain e where e: "admin_fault s (nt_name t) = Some e" "e \<noteq> TopicAlreadyExistsError" by blast
    then have "r1 = Inl e" using a by (auto simp: admin_create_topics_def Let_def)
    then show ?thesis using a e by auto
  next
    case False
    with Cons.prems have ex: "\<And>m. \<exists>t\<in>set ts. \<exists>e. admin_fault (emit (Print m) s1) (nt_name t) = Some e \<and> e \<noteq> TopicAlreadyExistsError"
      using f by (auto simp: emit_def)
    show ?thesis
    proof (cases r1)
      case (Inr u)
      then show ?thesis using a Cons.IH[OF ex] by simp
    next
      case (Inl e)
      with f False have "e = TopicAlreadyExistsError" by auto
      then show ?thesis using a Inl Cons.IH[OF ex] by simp
    qed
  qed
qed

lemma create_topics_loop_existing:
  "create_topics_loop ts s = (Inr u, s') \<Longrightarrow> \<forall>t\<in>set ts. admin_fault s (nt_name t) = None \<Longrightarrow>
   \<forall>t\<in>set ts. nt_name t \<in> set (existing s')"
proof (induction ts arbitrary: s)
  case Nil
  then show ?case by simp
next
  case (Cons t ts)
  obtain r1 s1 where a: "admin_create_topics t s = (r1, s1)" by (cases "admin_create_topics t s")
  note f = admin_create_topics_cases[OF a]
  obtain m where m: "create_topics_loop ts (emit (Print m) s1) = (Inr u, s')"
    using Cons.prems a by (cases r1) (auto split: if_splits)
  from f Cons.prems(2) have "nt_name t \<in> set (existing (emit (Print m) s1))"
    by (cases r1) (auto simp: emit_def)
  moreover have "\<forall>t\<in>set ts. admin_fault (emit (Print m) s1) (nt_name t) = None"
    using f Cons.prems(2) by (simp add: emit_def)
  ultimately show ?case using create_topics_loop_frame[OF m] Cons.IH[OF m] by auto
qed

lemma create_topics_loop_present:
  "\<forall>t\<in>set ts. admin_fault s (nt_name t) = None \<and> nt_name t \<in> set (existing s) \<Longrightarrow>
   create_topics_loop ts s = (Inr (), s\<lparr>trace := trace s @ provisioning_events ts True\<rparr>)"
proof (induction ts arbitrary: s)
  case Nil
  then show ?case by (simp add: provisioning_events_def)
next
  case (Cons t ts)
  let ?s1 = "emit (CreateTopic (nt_name t) (nt_num_partitions t) (nt_replication_factor t)) s"
  have a: "admin_create_topics t s = (Inl TopicAlreadyExistsError, ?s1)"
    using Cons.prems by (simp add: admin_create_topics_def Let_def)
  have "\<forall>t\<in>set ts. admin_fault (emit (Print (TopicExists (nt_name t))) ?s1) (nt_name t) = None \<and>
          nt_name t \<in> set (existing (emit (Print (TopicExists (nt_name t))) ?s1))"
    using Cons.prems by (simp add: emit_def)
  then have "\<forall>t'\<in>set ts. admin_fault (emit (Print (TopicExists (nt_name t))) ?s1) (nt_name t') = None \<and>
          nt_name t' \<in> set (existing (emit (Print (TopicExists (nt_name t))) ?s1))"
    using Cons.prems by (simp add: emit_def)
  from Cons.IH[OF this] a show ?case
    by (simp add: provisioning_events_def emit_def)
qed

subsection \<open>C6: provisioning\<close>

text \<open>
  C6.  \<open>create_topics\<close> catches \<open>TopicAlreadyExistsError\<close> for each topic and goes on:
  when no topic meets another administrative failure, provisioning succeeds whatever
  topics exist already, and provisioning a second time succeeds too, every creation
  then being answered by the informational message that the topic exists.  When some
  topic meets another administrative failure, the error is not caught: it leaves
  \<open>main\<close> uncaught, after provisioning events only, no producer having been opened.
\<close>

theorem create_topics_idempotent_fatal:
  "((\<forall>t\<in>set topics. admin_fault s (nt_name t) = None) \<longrightarrow>
      (\<exists>s1. create_topics s = (Inr (), s1) \<and>
            create_topics s1 =
              (Inr (), s1\<lparr>trace := trace s1 @ provisioning_events topics True @ [AdminClose]\<rparr>))) \<and>
   ((\<exists>t\<in>set topics. \<exists>e. admin_fault s (nt_name t) = Some e \<and> e \<noteq> TopicAlreadyExistsError) \<longrightarrow>
      (\<exists>e s' evs. e \<noteq> TopicAlreadyExistsError \<and> main s = (Uncaught e, s') \<and>
         opened s' = opened s \<and> trace s' = trace s @ evs \<and> list_all provisioning_event evs))"
proof (intro conjI impI)
  assume nf: "\<forall>t\<in>set topics. admin_fault s (nt_name t) = None"
  obtain r s1 where l: "create_topics_loop topics s = (r, s1)" by (cases "create_topics_loop topics s")
  from create_topics_loop_ok[of topics s] nf l have r: "r = Inr ()" by simp
  note fr = create_topics_loop_frame[OF l]
  from create_topics_loop_existing[OF l[unfolded r] nf] fr nf
  have "\<forall>t\<in>set topics. admin_fault (emit AdminClose s1) (nt_name t) = None \<and>
          nt_name t \<in> set (existing (emit AdminClose s1))"
    by (simp add: emit_def)
  from create_topics_loop_present[OF this] l r
  show "\<exists>s1. create_topics s = (Inr (), s1) \<and>
            create_topics s1 =
              (Inr (), s1\<lparr>trace := trace s1 @ provisioning_events topics True @ [AdminClose]\<rparr>)"
    by (simp add: create_topics_def io_bind_def admin_close_def emit_def)
next
  assume "\<exists>t\<in>set topics. \<exists>e. admin_fault s (nt_name t) = Some e \<and> e \<noteq> TopicAlreadyExistsError"
  then have ex: "\<exists>t\<in>set topics. \<exists>e. admin_fault (s\<lparr>test_results := []\<rparr>) (nt_name t) = Some e \<and> e \<noteq> TopicAlreadyExistsError"
    by simp
  obtain r s1 where l: "create_topics_loop topics (s\<lparr>test_results := []\<rparr>) = (r, s1)"
    by (cases "create_topics_loop topics (s\<lparr>test_results := []\<rparr>)")
  from create_topics_loop_fatal[OF ex] l obtain e where e: "r = Inl e" "e \<noteq> TopicAlreadyExistsError"
    by auto
  from create_topics_loop_frame[OF l] obtain evs where
    fr: "opened s1 = opened s" "trace s1 = trace s @ evs" "list_all provisioning_event evs"
    by auto
  have "main s = (Uncaught e, s1)"
    using l e by (simp add: main_def create_topics_def io_bind_def)
  with e fr
  show "\<exists>e s' evs. e \<noteq> TopicAlreadyExistsError \<and> main s = (Uncaught e, s') \<and>
         opened s' = opened s \<and> trace s' = trace s @ evs \<and> list_all provisioning_event evs"
    by blast
qed


theorem create_topics_idempotent_fatal_witness:
  "(\<exists>s1. create_topics (initial_state no_file no_fault no_fault) = (Inr (), s1) \<and>
         create_topics s1 =
           (Inr (), s1\<lparr>trace := trace s1 @ provisioning_events topics True @ [AdminClose]\<rparr>)) \<and>
   (\<exists>t\<in>set topics. \<exists>e.
       admin_fault (initial_state no_file (fault_at ''hydro-part-2'' KafkaError) no_fault) (nt_name t)
         = Some e \<and> e \<noteq> TopicAlreadyExistsError) \<and>
   (\<exists>e s' evs. e \<noteq> TopicAlreadyExistsError \<and>
       main (initial_state no_file (fault_at ''hydro-part-2'' KafkaError) no_fault) = (Uncaught e, s') \<and>
       opened s' = 0 \<and> trace s' = evs \<and> list_all provisioning_event evs)"
proof -
  have h1: "\<forall>t\<in>set topics. admin_fault (initial_state no_file no_fault no_fault) (nt_name t) = None"
    by (simp add: initial_state_def no_fault_def)
  have h2: "\<exists>t\<in>set topics. \<exists>e.
       admin_fault (initial_state no_file (fault_at ''hydro-part-2'' KafkaError) no_fault) (nt_name t)
         = Some e \<and> e \<noteq> TopicAlreadyExistsError"
    by (simp add: initial_state_def fault_at_def topics_def)
  from create_topics_idempotent_fatal[of "initial_state no_file no_fault no_fault"] h1
       create_topics_idempotent_fatal[of "initial_state no_file (fault_at ''hydro-part-2'' KafkaError) no_fault"] h2
  show ?thesis by (simp add: initial_state_def)
qed

subsection \<open>Loops and runs\<close>

lemmas io_defs = io_bind_def io_return_def io_lift_def io_raise_def time_def producer_open_def
  producer_send_def producer_flush_def producer_close_def future_get_def sleep_def print_def emit_def
  read_records_def set_test_results_def

lemma step_to_refl: "step_to s 0 0 0 [] s"
  by (simp add: step_to_def same_env_def)

lemma step_to_trans:
  "step_to s a b c e s1 \<Longrightarrow> step_to s1 a' b' c' e' s2 \<Longrightarrow>
   step_to s (a + a') (b + b') (c + c') (e @ e') s2"
  by (simp add: step_to_def same_env_def)

lemma send_loop_Cons:
  "send_loop p topic (r # rs) lats s =
     (case ack_fault s (waits s) of
        Some e \<Rightarrow> (Inl e, s\<lparr>ticks := Suc (ticks s), waits := Suc (waits s),
                             trace := trace s @ [Send p topic None r, AckWait p 10]\<rparr>)
      | None \<Rightarrow> send_loop p topic rs (lats @ [latency_at s 0])
                 (s\<lparr>waits := Suc (waits s),
                    trace := trace s @ [Send p topic None r, AckWait p 10],
                    ticks := Suc (Suc (ticks s))\<rparr>))"
  by (simp add: io_defs Let_def latency_at_def split: option.splits)

declare send_loop.simps(2) [simp del]

lemma send_loop_acked:
  "\<forall>i<length rs. ack_fault s (waits s + i) = None \<Longrightarrow>
   send_loop p topic rs lats s = (r, s') \<Longrightarrow>
     r = Inr (lats @ map (latency_at s) [0..<length rs]) \<and>
     step_to s (2 * length rs) (length rs) 0 (sync_events p topic rs) s'"
proof (induction rs arbitrary: lats s)
  case Nil
  then show ?case by (auto simp: sync_events_def step_to_def same_env_def)
next
  case (Cons a rs)
  let ?s1 = "s\<lparr>waits := Suc (waits s),
                trace := trace s @ [Send p topic None a, AckWait p 10],
                ticks := Suc (Suc (ticks s))\<rparr>"
  from Cons.prems have a0: "ack_fault s (waits s) = None" by auto
  from Cons.prems have k: "\<forall>i<length rs. ack_fault ?s1 (waits ?s1 + i) = None" by auto
  from Cons.prems(2) a0 have "send_loop p topic rs (lats @ [latency_at s 0]) ?s1 = (r, s')"
    by (simp only: send_loop_Cons option.case)
  note ih = Cons.IH[OF k this]
  have m: "map (latency_at s) [0..<Suc (length rs)] =
           latency_at s 0 # map (latency_at ?s1) [0..<length rs]"
    by (simp add: map_upt_Suc latency_at_def del: upt_Suc)
  from ih show ?case
    by (simp add: m step_to_def same_env_def sync_events_def del: upt_Suc)
qed

lemma send_loop_timeout:
  "k < length rs \<Longrightarrow> \<forall>i<k. ack_fault s (waits s + i) = None \<Longrightarrow>
   ack_fault s (waits s + k) = Some e \<Longrightarrow>
   send_loop p topic rs lats s = (r, s') \<Longrightarrow>
     r = Inl e \<and>
     step_to s (2 * k + 1) (k + 1) 0 (sync_events p topic (take (Suc k) rs)) s'"
proof (induction rs arbitrary: lats s k)
  case Nil
  then show ?case by simp
next
  case (Cons a rs)
  let ?s1 = "s\<lparr>waits := Suc (waits s),
                trace := trace s @ [Send p topic None a, AckWait p 10],
                ticks := Suc (Suc (ticks s))\<rparr>"
  show ?case
  proof (cases k)
    case 0
    with Cons.prems show ?thesis
      by (auto simp: send_loop_Cons sync_events_def step_to_def same_env_def)
  next
    case (Suc j)
    from Cons.prems Suc have a0: "ack_fault s (waits s) = None" by auto
    from Cons.prems Suc have h: "j < length rs" "\<forall>i<j. ack_fault ?s1 (waits ?s1 + i) = None"
      "ack_fault ?s1 (waits ?s1 + j) = Some e" by auto
    from Cons.prems(4) a0 have "send_loop p topic rs (lats @ [latency_at s 0]) ?s1 = (r, s')"
      by (simp only: send_loop_Cons option.case)
    note ih = Cons.IH[OF h this]
    from ih show ?thesis
      by (simp add: Suc step_to_def same_env_def sync_events_def)
  qed
qed

lemma send_loop_frame:
  "send_loop p topic rs lats s = (r, s') \<Longrightarrow>
     \<exists>dt dw evs. step_to s dt dw 0 evs s' \<and> list_all run_event evs"
proof (induction rs arbitrary: lats s)
  case Nil
  then show ?case using step_to_refl by (auto intro!: exI[where x="[]"] exI[where x=0])
next
  case (Cons a rs)
  let ?s1 = "s\<lparr>waits := Suc (waits s),
                trace := trace s @ [Send p topic None a, AckWait p 10],
                ticks := Suc (Suc (ticks s))\<rparr>"
  show ?case
  proof (cases "ack_fault s (waits s)")
    case None
    with Cons.prems have "send_loop p topic rs (lats @ [latency_at s 0]) ?s1 = (r, s')"
      by (simp only: send_loop_Cons option.case)
    from Cons.IH[OF this] obtain dt dw evs where
      st: "step_to ?s1 dt dw 0 evs s'" and ev: "list_all run_event evs" by blast
    have "step_to s 2 1 0 [Send p topic None a, AckWait p 10] ?s1"
      by (simp add: step_to_def same_env_def)
    from step_to_trans[OF this st] ev show ?thesis
      by (intro exI[where x="2 + dt"] exI[where x="1 + dw"]
          exI[where x="[Send p topic None a, AckWait p 10] @ evs"]) simp
  next
    case (Some e)
    with Cons.prems have "step_to s 1 1 0 [Send p topic None a, AckWait p 10] s'"
      by (auto simp: send_loop_Cons step_to_def same_env_def)
    then show ?thesis
      by (intro exI[where x=1] exI[where x="[Send p topic None a, AckWait p 10]"]) simp
  qed
qed

lemma keyed_send_loop_frame:
  "keyed_send_loop p topic rs s = (r, s') \<Longrightarrow>
     \<exists>evs. step_to s 0 0 0 evs s' \<and> list_all run_event evs \<and>
        (\<forall>p' t. AckWait p' t \<notin> set evs)"
proof (induction rs arbitrary: s)
  case Nil
  then show ?case using step_to_refl by (auto intro!: exI[where x="[]"])
next
  case (Cons a rs)
  show ?case
  proof (cases "turbine_type a")
    case None
    with Cons.prems show ?thesis using step_to_refl by (auto intro!: exI[where x="[]"])
  next
    case (Some k)
    with Cons.prems have "keyed_send_loop p topic rs (emit (Send p topic (Some k) a) s) = (r, s')"
      by (simp add: io_bind_def producer_send_def)
    from Cons.IH[OF this] obtain evs where
      st: "step_to (emit (Send p topic (Some k) a) s) 0 0 0 evs s'" and
      ev: "list_all run_event evs" "\<forall>p' t. AckWait p' t \<notin> set evs" by blast
    have "step_to s 0 0 0 [Send p topic (Some k) a] (emit (Send p topic (Some k) a) s)"
      by (simp add: step_to_def same_env_def emit_def)
    from step_to_trans[OF this st] ev show ?thesis
      by (intro exI[where x="[Send p topic (Some k) a] @ evs"]) simp
  qed
qed

lemma keyed_send_loop_sent:
  "\<forall>r\<in>set rs. turbine_type r \<noteq> None \<Longrightarrow>
   keyed_send_loop p topic rs s = (r, s') \<Longrightarrow>
   r = Inr () \<and> step_to s 0 0 0 (map (\<lambda>r. Send p topic (turbine_type r) r) rs) s'"
proof (induction rs arbitrary: s)
  case Nil
  then show ?case using step_to_refl by auto
next
  case (Cons a rs)
  then obtain k where k: "turbine_type a = Some k" by auto
  from Cons.prems have h: "\<forall>r\<in>set rs. turbine_type r \<noteq> None" by simp
  from Cons.prems(2) k have "keyed_send_loop p topic rs (emit (Send p topic (Some k) a) s) = (r, s')"
    by (simp add: io_bind_def producer_send_def)
  from Cons.IH[OF h this] show ?case
    by (simp add: k step_to_def same_env_def emit_def)
qed

lemma batch_linger_run_shape:
  assumes "batch_linger_run f (b, l) s = (r, s')"
  shows "\<exists>dt dw evs. list_all run_event evs \<and>
           step_to s dt dw 1
             (ProducerOpen (opened s) b l (Some ''lz4'') # evs @
              (case r of Inr _ \<Rightarrow> [ProducerClose (opened s), Sleep 2] | Inl _ \<Rightarrow> [])) s'"
proof -
  let ?p = "opened s"
  let ?s1 = "emit (ProducerOpen ?p b l (Some ''lz4'')) (s\<lparr>opened := Suc ?p\<rparr>)"
  show ?thesis
  proof (cases "files s f")
    case None
    with assms have "r = Inl FileNotFoundError" "s' = ?s1"
      by (auto simp: batch_linger_run_def io_defs)
    then show ?thesis
      by (intro exI[where x=0] exI[where x="[]"]) (simp add: step_to_def same_env_def emit_def)
  next
    case (Some rs)
    let ?s2 = "?s1\<lparr>ticks := Suc (ticks s)\<rparr>"
    obtain r3 s3 where sl: "send_loop ?p ''hydro-batch-test'' (take 1000 rs) [] ?s2 = (r3, s3)"
      by fastforce
    from send_loop_frame[OF sl] obtain dt dw evs where
      st: "step_to ?s2 dt dw 0 evs s3" and ev: "list_all run_event evs" by blast
    show ?thesis
    proof (cases r3)
      case (Inl e)
      with assms Some sl have "r = Inl e" "s' = s3"
        by (auto simp: batch_linger_run_def io_defs)
      with st ev show ?thesis
        by (intro exI[where x="Suc dt"] exI[where x=dw] exI[where x=evs])
           (simp add: step_to_def same_env_def emit_def)
    next
      case (Inr lats)
      let ?s5 = "(emit (Flush ?p) s3)\<lparr>ticks := Suc (ticks s3)\<rparr>"
      let ?m = "batch_linger_metrics b l rs lats (clock s (ticks s)) (clock s3 (ticks s3))"
      show ?thesis
      proof (cases ?m)
        case (Inl e)
        with assms Some sl \<open>r3 = Inr lats\<close> have "r = Inl e" "s' = ?s5"
          by (auto simp: batch_linger_run_def io_defs)
        with st ev show ?thesis
          by (intro exI[where x="Suc (Suc dt)"] exI[where x=dw] exI[where x="evs @ [Flush ?p]"])
             (simp add: step_to_def same_env_def emit_def)
      next
        case (Inr res)
        with assms Some sl \<open>r3 = Inr lats\<close> have "r = Inr res"
          "s' = emit (Sleep 2) (emit (ProducerClose ?p) ?s5)"
          by (auto simp: batch_linger_run_def io_defs)
        with st ev show ?thesis
          by (intro exI[where x="Suc (Suc dt)"] exI[where x=dw] exI[where x="evs @ [Flush ?p]"])
             (simp add: step_to_def same_env_def emit_def)
      qed
    qed
  qed
qed

lemma compression_run_shape:
  assumes "compression_run rs osz algo s = (r, s')"
  shows "\<exists>dt dw evs. list_all run_event evs \<and>
           step_to s dt dw 1
             (ProducerOpen (opened s) 262144 50 (if algo = ''none'' then None else Some algo) # evs @
              (case r of Inr _ \<Rightarrow> [ProducerClose (opened s), Sleep 2] | Inl _ \<Rightarrow> [])) s'"
proof -
  let ?p = "opened s"
  let ?c = "if algo = ''none'' then None else Some algo"
  let ?s1 = "emit (ProducerOpen ?p 262144 50 ?c) (s\<lparr>opened := Suc ?p\<rparr>)"
  let ?s2 = "?s1\<lparr>ticks := Suc (ticks s)\<rparr>"
  obtain r3 s3 where sl: "send_loop ?p (''hydro-comp-'' @ algo) rs [] ?s2 = (r3, s3)"
    by fastforce
  from send_loop_frame[OF sl] obtain dt dw evs where
    st: "step_to ?s2 dt dw 0 evs s3" and ev: "list_all run_event evs" by blast
  show ?thesis
  proof (cases r3)
    case (Inl e)
    with assms sl have "r = Inl e" "s' = s3"
      by (auto simp: compression_run_def io_defs Let_def split: if_splits)
    with st ev show ?thesis
      by (intro exI[where x="Suc dt"] exI[where x=dw] exI[where x=evs])
         (simp add: step_to_def same_env_def emit_def)
  next
    case (Inr lats)
    let ?s5 = "(emit (Flush ?p) s3)\<lparr>ticks := Suc (ticks s3)\<rparr>"
    let ?m = "compression_metrics algo rs osz lats (clock s (ticks s)) (clock s3 (ticks s3))"
    show ?thesis
    proof (cases ?m)
      case (Inl e)
      with assms sl \<open>r3 = Inr lats\<close> have "r = Inl e" "s' = ?s5"
        by (auto simp: compression_run_def io_defs Let_def split: if_splits)
      with st ev show ?thesis
        by (intro exI[where x="Suc (Suc dt)"] exI[where x=dw] exI[where x="evs @ [Flush ?p]"])
           (simp add: step_to_def same_env_def emit_def)
    next
      case (Inr res)
      with assms sl \<open>r3 = Inr lats\<close> have "r = Inr res"
        "s' = emit (Sleep 2) (emit (ProducerClose ?p) ?s5)"
        by (auto simp: compression_run_def io_defs Let_def split: if_splits)
      with st ev show ?thesis
        by (intro exI[where x="Suc (Suc dt)"] exI[where x=dw] exI[where x="evs @ [Flush ?p]"])
           (simp add: step_to_def same_env_def emit_def)
    qed
  qed
qed

lemma partitioning_run_shape:
  assumes "partitioning_run rs bl n s = (r, s')"
  shows "\<exists>dt evs. list_all run_event evs \<and> (\<forall>p t. AckWait p t \<notin> set evs) \<and>
           step_to s dt 0 1
             (ProducerOpen (opened s) 262144 50 (Some ''lz4'') # evs @
              (case r of Inr _ \<Rightarrow> [ProducerClose (opened s), Sleep 2] | Inl _ \<Rightarrow> [])) s'"
proof -
  let ?p = "opened s"
  let ?s1 = "emit (ProducerOpen ?p 262144 50 (Some ''lz4'')) (s\<lparr>opened := Suc ?p\<rparr>)"
  let ?s2 = "?s1\<lparr>ticks := Suc (ticks s)\<rparr>"
  obtain r3 s3 where sl: "keyed_send_loop ?p (''hydro-part-'' @ str_nat n) rs ?s2 = (r3, s3)"
    by fastforce
  from keyed_send_loop_frame[OF sl] obtain evs where
    st: "step_to ?s2 0 0 0 evs s3" and ev: "list_all run_event evs"
      "\<forall>p t. AckWait p t \<notin> set evs" by blast
  show ?thesis
  proof (cases r3)
    case (Inl e)
    with assms sl have "r = Inl e" "s' = s3"
      by (auto simp: partitioning_run_def io_defs Let_def)
    with st ev show ?thesis
      by (intro exI[where x="Suc 0"] exI[where x=evs])
         (simp add: step_to_def same_env_def emit_def)
  next
    case (Inr u)
    let ?s5 = "(emit (Flush ?p) s3)\<lparr>ticks := Suc (ticks s3)\<rparr>"
    let ?m = "partitioning_metrics n rs bl (clock s (ticks s)) (clock s3 (ticks s3))"
    show ?thesis
    proof (cases ?m)
      case (Inl e)
      with assms sl \<open>r3 = Inr u\<close> have "r = Inl e" "s' = ?s5"
        by (auto simp: partitioning_run_def io_defs Let_def)
      with st ev show ?thesis
        by (intro exI[where x="Suc (Suc 0)"] exI[where x="evs @ [Flush ?p]"])
           (simp add: step_to_def same_env_def emit_def)
    next
      case (Inr res)
      with assms sl \<open>r3 = Inr u\<close> have "r = Inr res"
        "s' = emit (Sleep 2) (emit (ProducerClose ?p) ?s5)"
        by (auto simp: partitioning_run_def io_defs Let_def)
      with st ev show ?thesis
        by (intro exI[where x="Suc (Suc 0)"] exI[where x="evs @ [Flush ?p]"])
           (simp add: step_to_def same_env_def emit_def)
    qed
  qed
qed

subsection \<open>Sweeps and main\<close>

lemma step_to_exI: "step_to s dt dw dp evs s' \<Longrightarrow> \<exists>dt dw dp evs. step_to s dt dw dp evs s'"
  by blast

lemma batch_linger_loop_abort:
  "batch_linger_loop f pre acc s = (Inr acc', s1) \<Longrightarrow> batch_linger_run f cfg s1 = (Inl e, s2) \<Longrightarrow>
   batch_linger_loop f (pre @ cfg # post) acc s = (Inl e, s2)"
proof (induction pre arbitrary: acc s)
  case Nil
  then show ?case by (simp add: io_bind_def)
next
  case (Cons c pre)
  from Cons.prems(1) obtain r0 s0 where r0: "batch_linger_run f c s = (Inr r0, s0)"
    "batch_linger_loop f pre (acc @ [r0]) s0 = (Inr acc', s1)"
    by (auto simp: io_bind_def split: prod.splits sum.splits)
  from Cons.IH[OF r0(2) Cons.prems(2)] r0(1) show ?case
    by (simp add: io_bind_def)
qed

lemma compression_loop_abort:
  "compression_loop rs osz pre acc s = (Inr acc', s1) \<Longrightarrow>
   compression_run rs osz algo s1 = (Inl e, s2) \<Longrightarrow>
   compression_loop rs osz (pre @ algo # post) acc s = (Inl e, s2)"
proof (induction pre arbitrary: acc s)
  case Nil
  then show ?case by (simp add: io_bind_def)
next
  case (Cons c pre)
  from Cons.prems(1) obtain r0 s0 where r0: "compression_run rs osz c s = (Inr r0, s0)"
    "compression_loop rs osz pre (acc @ [r0]) s0 = (Inr acc', s1)"
    by (auto simp: io_bind_def split: prod.splits sum.splits)
  from Cons.IH[OF r0(2) Cons.prems(2)] r0(1) show ?case
    by (simp add: io_bind_def)
qed

lemma partitioning_loop_abort:
  "partitioning_loop rs bl pre acc s = (Inr (acc', bl'), s1) \<Longrightarrow>
   partitioning_run rs bl' n s1 = (Inl e, s2) \<Longrightarrow>
   partitioning_loop rs bl (pre @ n # post) acc s = (Inl e, s2)"
proof (induction pre arbitrary: acc s bl)
  case Nil
  then show ?case by (simp add: io_bind_def)
next
  case (Cons c pre)
  from Cons.prems(1) obtain r0 s0 where r0: "partitioning_run rs bl c s = (Inr r0, s0)"
    "partitioning_loop rs (snd r0) pre (acc @ [fst r0]) s0 = (Inr (acc', bl'), s1)"
    by (auto simp: io_bind_def split: prod.splits sum.splits)
  from Cons.IH[OF r0(2) Cons.prems(2)] r0(1) show ?case
    by (simp add: io_bind_def)
qed

lemma batch_linger_loop_frame:
  "batch_linger_loop f cfgs acc s = (r, s') \<Longrightarrow> \<exists>dt dw dp evs. step_to s dt dw dp evs s'"
proof (induction cfgs arbitrary: acc s)
  case Nil
  then have "s' = s" by simp
  then show ?case using step_to_refl by blast
next
  case (Cons c cfgs)
  obtain r0 s0 where r0: "batch_linger_run f c s = (r0, s0)" by fastforce
  obtain b l where c: "c = (b, l)" by (cases c)
  from batch_linger_run_shape[OF r0[unfolded c]] obtain dt dw evs where
    st: "step_to s dt dw 1 evs s0" by blast
  show ?case
  proof (cases r0)
    case (Inl e)
    with Cons.prems r0 have "s' = s0" by (simp add: io_bind_def)
    with st show ?thesis by blast
  next
    case (Inr x)
    with Cons.prems r0 have "batch_linger_loop f cfgs (acc @ [x]) s0 = (r, s')"
      by (simp add: io_bind_def)
    from Cons.IH[OF this] obtain dt' dw' dp' evs' where "step_to s0 dt' dw' dp' evs' s'" by blast
    from step_to_trans[OF st this] show ?thesis by blast
  qed
qed

lemma compression_loop_frame:
  "compression_loop rs osz algos acc s = (r, s') \<Longrightarrow> \<exists>dt dw dp evs. step_to s dt dw dp evs s'"
proof (induction algos arbitrary: acc s)
  case Nil
  then have "s' = s" by simp
  then show ?case using step_to_refl by blast
next
  case (Cons c algos)
  obtain r0 s0 where r0: "compression_run rs osz c s = (r0, s0)" by fastforce
  from compression_run_shape[OF r0] obtain dt dw evs where
    st: "step_to s dt dw 1 evs s0" by blast
  show ?case
  proof (cases r0)
    case (Inl e)
    with Cons.prems r0 have "s' = s0" by (simp add: io_bind_def)
    with st show ?thesis by blast
  next
    case (Inr x)
    with Cons.prems r0 have "compression_loop rs osz algos (acc @ [x]) s0 = (r, s')"
      by (simp add: io_bind_def)
    from Cons.IH[OF this] obtain dt' dw' dp' evs' where "step_to s0 dt' dw' dp' evs' s'" by blast
    from step_to_trans[OF st this] show ?thesis by blast
  qed
qed

lemma partitioning_loop_frame:
  "partitioning_loop rs bl ns acc s = (r, s') \<Longrightarrow> \<exists>dt dw dp evs. step_to s dt dw dp evs s'"
proof (induction ns arbitrary: acc s bl)
  case Nil
  then have "s' = s" by simp
  then show ?case using step_to_refl by blast
next
  case (Cons c ns)
  obtain r0 s0 where r0: "partitioning_run rs bl c s = (r0, s0)" by fastforce
  from partitioning_run_shape[OF r0] obtain dt evs where
    st: "step_to s dt 0 1 evs s0" by blast
  show ?case
  proof (cases r0)
    case (Inl e)
    with Cons.prems r0 have "s' = s0" by (simp add: io_bind_def)
    with st show ?thesis by blast
  next
    case (Inr x)
    with Cons.prems r0 have "partitioning_loop rs (snd x) ns (acc @ [fst x]) s0 = (r, s')"
      by (simp add: io_bind_def)
    from Cons.IH[OF this] obtain dt' dw' dp' evs' where "step_to s0 dt' dw' dp' evs' s'" by blast
    from step_to_trans[OF st this] show ?thesis by blast
  qed
qed

text \<open>A sweep stores its results when its loop returns, and nothing when it raises.\<close>

lemma test_batch_linger_cases:
  "test_batch_linger f s = (r, s') \<Longrightarrow> batch_linger_loop f configs [] s = (r1, s1) \<Longrightarrow>
   r = r1 \<and>
   (case r1 of Inl e \<Rightarrow> s' = s1
    | Inr res \<Rightarrow> s' = s1\<lparr>test_results := AList.update ''batch_linger'' res (test_results s1)\<rparr>)"
  by (auto simp: test_batch_linger_def io_defs split: prod.splits sum.splits)

lemma test_compression_cases:
  "test_compression f s = (r, s') \<Longrightarrow> files s f = Some rs \<Longrightarrow>
   compression_loop (take 3000 rs) (original_size_of (take 3000 rs)) algorithms [] s = (r1, s1) \<Longrightarrow>
   r = r1 \<and>
   (case r1 of Inl e \<Rightarrow> s' = s1
    | Inr res \<Rightarrow> s' = s1\<lparr>test_results := AList.update ''compression'' res (test_results s1)\<rparr>)"
  by (auto simp: test_compression_def io_defs Let_def split: prod.splits sum.splits option.splits)

lemma test_partitioning_cases:
  "test_partitioning f s = (r, s') \<Longrightarrow> files s f = Some rs \<Longrightarrow>
   partitioning_loop (take 4000 rs) None partition_counts [] s = (r1, s1) \<Longrightarrow>
   (case r1 of Inl e \<Rightarrow> r = Inl e \<and> s' = s1
    | Inr res \<Rightarrow> r = Inr (fst res) \<and>
        s' = s1\<lparr>test_results := AList.update ''partitioning'' (fst res) (test_results s1)\<rparr>)"
  by (auto simp: test_partitioning_def io_defs Let_def split: prod.splits sum.splits option.splits)

lemma test_missing_file:
  "files s f = None \<Longrightarrow> test_compression f s = (Inl FileNotFoundError, s)"
  "files s f = None \<Longrightarrow> test_partitioning f s = (Inl FileNotFoundError, s)"
  by (simp_all add: test_compression_def test_partitioning_def io_defs)

lemma admin_create_topics_env:
  "admin_create_topics t s = (r, s') \<Longrightarrow>
     same_env s s' \<and> ticks s' = ticks s \<and> waits s' = waits s \<and> test_results s' = test_results s"
  by (auto simp: admin_create_topics_def emit_def Let_def same_env_def split: option.splits if_splits)

lemma create_topics_loop_env:
  "create_topics_loop ts s = (r, s') \<Longrightarrow>
     same_env s s' \<and> ticks s' = ticks s \<and> waits s' = waits s \<and> test_results s' = test_results s"
proof (induction ts arbitrary: s)
  case Nil
  then show ?case by (auto simp: same_env_def)
next
  case (Cons t ts)
  obtain r1 s1 where a: "admin_create_topics t s = (r1, s1)" by (cases "admin_create_topics t s")
  note f = admin_create_topics_env[OF a]
  show ?case
  proof (cases "\<exists>m. create_topics_loop ts (emit (Print m) s1) = (r, s')")
    case True
    then obtain m where "create_topics_loop ts (emit (Print m) s1) = (r, s')" by blast
    from Cons.IH[OF this] f show ?thesis by (auto simp: emit_def same_env_def)
  next
    case False
    with Cons.prems a have "s' = s1" by (cases r1) (auto split: if_splits)
    with f show ?thesis by simp
  qed
qed

lemma create_topics_env:
  "create_topics s = (r, s') \<Longrightarrow>
     same_env s s' \<and> ticks s' = ticks s \<and> waits s' = waits s \<and> opened s' = opened s \<and>
     test_results s' = test_results s"
proof -
  assume a: "create_topics s = (r, s')"
  obtain r1 s1 where l: "create_topics_loop topics s = (r1, s1)" by fastforce
  from create_topics_loop_env[OF l] create_topics_loop_frame[OF l] a l show ?thesis
    by (cases r1) (auto simp: create_topics_def io_bind_def admin_close_def emit_def same_env_def)
qed

lemma main_of_body:
  "create_topics (s\<lparr>test_results := []\<rparr>) = (Inr u, s1) \<Longrightarrow>
   main_body (emit (Sleep 3) s1) = (r, s2) \<Longrightarrow>
   main s = (Returned,
     case r of Inr _ \<Rightarrow> s2
     | Inl e \<Rightarrow> emit (Print (if e = FileNotFoundError then RunGeneratorFirst else ErrorMessage e)) s2)"
  by (cases r) (simp_all add: main_def io_bind_def sleep_def)

lemma step_to_results: "step_to s dt dw dp evs s' \<Longrightarrow> test_results s' = test_results s"
  by (simp add: step_to_def)

lemma step_to_files: "step_to s dt dw dp evs s' \<Longrightarrow> files s' = files s"
  by (simp add: step_to_def same_env_def)

text \<open>
  C1 (as the code behaves).  No sweep catches the failure of a run.  When provisioning has
  succeeded and a run of any of the three sweeps raises, the exception leaves the sweep
  loop and the body of \<open>main\<close> in the state the run left: the configurations after it,
  the sweeps after it and the report are not executed, \<open>test_results\<close> has no entry for
  the sweep of the failed run, and \<open>main\<close> prints the error and returns.
\<close>

theorem failed_run_ends_invocation:
  assumes prov: "create_topics (s\<lparr>test_results := []\<rparr>) = (Inr u, s1)"
    and fails: "run_fails sweep (emit (Sleep 3) s1) e s2"
  shows "main s =
           (Returned,
            emit (Print (if e = FileNotFoundError then RunGeneratorFirst else ErrorMessage e)) s2) \<and>
         map_of (test_results s2) sweep = None"
proof -
  let ?s0 = "emit (Sleep 3) s1"
  from create_topics_env[OF prov] have tr0: "test_results ?s0 = []"
    by (simp add: emit_def)
  from fails have "main_body ?s0 = (Inl e, s2) \<and> map_of (test_results s2) sweep = None"
  proof cases
    case (in_batch_linger pre cfg post acc t1)
    from batch_linger_loop_abort[OF in_batch_linger(3,4), of post] in_batch_linger(2)
    have l: "batch_linger_loop workload_file configs [] ?s0 = (Inl e, s2)" by simp
    obtain r s' where t: "test_batch_linger workload_file ?s0 = (r, s')" by fastforce
    from test_batch_linger_cases[OF t l] t have "test_batch_linger workload_file ?s0 = (Inl e, s2)"
      by simp
    moreover from batch_linger_loop_frame[OF l] tr0 have "test_results s2 = []"
      by (auto dest: step_to_results)
    ultimately show ?thesis
      by (simp add: main_body_def workload_file_def io_bind_def)
  next
    case (in_compression res t1 rs pre algo post acc t2)
    obtain r1 u1 where l1: "batch_linger_loop workload_file configs [] ?s0 = (r1, u1)" by fastforce
    from test_batch_linger_cases[OF in_compression(2) l1] batch_linger_loop_frame[OF l1] tr0
    have tr1: "test_results t1 = [(''batch_linger'', res)]"
      by (auto dest: step_to_results)
    from compression_loop_abort[OF in_compression(5,6), of post] in_compression(4)
    have l: "compression_loop (take 3000 rs) (original_size_of (take 3000 rs)) algorithms [] t1 = (Inl e, s2)"
      by simp
    obtain r s' where t: "test_compression workload_file t1 = (r, s')" by fastforce
    from test_compression_cases[OF t in_compression(3) l] t
    have "test_compression workload_file t1 = (Inl e, s2)" by simp
    moreover from compression_loop_frame[OF l] tr1 have "test_results s2 = [(''batch_linger'', res)]"
      by (auto dest: step_to_results)
    ultimately show ?thesis using in_compression(1,2)
      by (simp add: main_body_def workload_file_def io_bind_def)
  next
    case (in_partitioning res t1 res' t2 rs pre n post acc bl t3)
    obtain r1 u1 where l1: "batch_linger_loop workload_file configs [] ?s0 = (r1, u1)" by fastforce
    from test_batch_linger_cases[OF in_partitioning(2) l1] batch_linger_loop_frame[OF l1] tr0
    have tr1: "test_results t1 = [(''batch_linger'', res)]" and f1: "files t1 = files ?s0"
      by (auto dest: step_to_results step_to_files)
    have "files t1 workload_file \<noteq> None"
      using in_partitioning(3) test_missing_file(1)[of t1 workload_file] by auto
    then obtain rs1 where rs1: "files t1 workload_file = Some rs1" by auto
    obtain r2 u2 where l2: "compression_loop (take 3000 rs1) (original_size_of (take 3000 rs1)) algorithms [] t1 = (r2, u2)"
      by fastforce
    from test_compression_cases[OF in_partitioning(3) rs1 l2] compression_loop_frame[OF l2] tr1
    have tr2: "test_results t2 = [(''batch_linger'', res), (''compression'', res')]"
      by (auto dest: step_to_results)
    from partitioning_loop_abort[OF in_partitioning(6,7), of post] in_partitioning(5)
    have l: "partitioning_loop (take 4000 rs) None partition_counts [] t2 = (Inl e, s2)"
      by simp
    obtain r s' where t: "test_partitioning workload_file t2 = (r, s')" by fastforce
    from test_partitioning_cases[OF t in_partitioning(4) l] t
    have "test_partitioning workload_file t2 = (Inl e, s2)" by simp
    moreover from partitioning_loop_frame[OF l] tr2
    have "test_results s2 = [(''batch_linger'', res), (''compression'', res')]"
      by (auto dest: step_to_results)
    ultimately show ?thesis using in_partitioning(1,2,3)
      by (simp add: main_body_def workload_file_def io_bind_def)
  qed
  with main_of_body[OF prov, of "Inl e" s2] show ?thesis by simp
qed

lemma create_topics_ok:
  assumes "\<forall>t\<in>set topics. admin_fault s (nt_name t) = None"
  shows "\<exists>s1. create_topics s = (Inr (), s1)"
proof -
  obtain r s1 where l: "create_topics_loop topics s = (r, s1)" by fastforce
  from create_topics_loop_ok[of topics s] assms l have "r = Inr ()" by simp
  with l show ?thesis by (simp add: create_topics_def io_bind_def admin_close_def)
qed

lemma batch_linger_run_no_file:
  "files s f = None \<Longrightarrow>
   batch_linger_run f (b, l) s =
     (Inl FileNotFoundError, emit (ProducerOpen (opened s) b l (Some ''lz4'')) (s\<lparr>opened := Suc (opened s)\<rparr>))"
  by (simp add: batch_linger_run_def io_defs)

lemma batch_linger_run_timeout:
  "files s f = Some (r # rs) \<Longrightarrow> ack_fault s (waits s) = Some e \<Longrightarrow>
   \<exists>s2. batch_linger_run f cfg s = (Inl e, s2)"
  by (cases cfg) (simp add: batch_linger_run_def io_defs send_loop_Cons)

lemma main_timeout_state:
  "main timeout_state =
     (Returned,
      timeout_state\<lparr>existing := map nt_name topics, opened := 1, ticks := 2, waits := 1,
        trace := provisioning_events topics False @
          [AdminClose, Sleep 3, ProducerOpen 0 16384 0 (Some ''lz4''),
           Send 0 ''hydro-batch-test'' None kaplan_record, AckWait 0 10,
           Print (ErrorMessage KafkaTimeoutError)]\<rparr>)"
  by (simp add: main_def create_topics_def topics_def admin_create_topics_def admin_close_def
      main_body_def test_batch_linger_def configs_def batch_linger_run_def send_loop_Cons
      io_defs initial_state_def one_file_def no_fault_def fault_at_def provisioning_events_def
      timeout_state_def Let_def)

text \<open>
  C1 as stated fails: after the timeout of the first wait, \<open>main\<close> opens no further
  producer (five configurations and two sweeps are left out) and records nothing.
\<close>

theorem timeout_stops_all_sweeps_counterexample:
  "fst (main timeout_state) = Returned \<and>
   trace (snd (main timeout_state)) =
     provisioning_events topics False @
     [AdminClose, Sleep 3, ProducerOpen 0 16384 0 (Some ''lz4''),
      Send 0 ''hydro-batch-test'' None kaplan_record, AckWait 0 10,
      Print (ErrorMessage KafkaTimeoutError)] \<and>
   test_results (snd (main timeout_state)) = []"
  by (simp add: main_timeout_state) (simp add: timeout_state_def initial_state_def)

theorem failed_run_ends_invocation_witness:
  "\<exists>s2. main timeout_state = (Returned, emit (Print (ErrorMessage KafkaTimeoutError)) s2) \<and>
        map_of (test_results s2) ''batch_linger'' = None"
proof -
  let ?s = "timeout_state\<lparr>test_results := []\<rparr>"
  have "\<forall>t\<in>set topics. admin_fault ?s (nt_name t) = None"
    by (simp add: timeout_state_def initial_state_def no_fault_def)
  from create_topics_ok[OF this] obtain s1 where prov: "create_topics ?s = (Inr (), s1)" by blast
  from create_topics_env[OF prov]
  have "files (emit (Sleep 3) s1) workload_file = Some [kaplan_record]"
       "ack_fault (emit (Sleep 3) s1) (waits (emit (Sleep 3) s1)) = Some KafkaTimeoutError"
    by (simp_all add: same_env_def emit_def timeout_state_def initial_state_def one_file_def
        fault_at_def workload_file_def)
  from batch_linger_run_timeout[OF this, of "(16384, 0)"] obtain s2 where
    run: "batch_linger_run workload_file (16384, 0) (emit (Sleep 3) s1) = (Inl KafkaTimeoutError, s2)"
    by blast
  have "run_fails ''batch_linger'' (emit (Sleep 3) s1) KafkaTimeoutError s2"
    by (rule in_batch_linger[where pre = "[]" and cfg = "(16384, 0)" and acc = "[]",
          OF _ _ run]) (simp_all add: configs_def)
  from failed_run_ends_invocation[OF prov this] show ?thesis by auto
qed

subsection \<open>Producer discipline and exit behaviour\<close>

text \<open>
  C7 (as the code behaves).  Each run opens one producer; what follows are sends, waits
  and a flush; the producer is closed, and the two-second sleep taken, exactly when the
  run returns normally.  A run that raises (missing file, failed wait, error in the
  reduction) ends without closing its producer.
\<close>

theorem producer_closed_only_on_success:
  "(\<exists>evs. list_all run_event evs \<and>
      trace (snd (batch_linger_run f (b, l) s)) =
        trace s @ ProducerOpen (opened s) b l (Some ''lz4'') # evs @
        (case fst (batch_linger_run f (b, l) s) of
           Inr _ \<Rightarrow> [ProducerClose (opened s), Sleep 2] | Inl _ \<Rightarrow> [])) \<and>
   (\<exists>evs. list_all run_event evs \<and>
      trace (snd (compression_run rs osz algo s)) =
        trace s @ ProducerOpen (opened s) 262144 50 (if algo = ''none'' then None else Some algo) #
        evs @
        (case fst (compression_run rs osz algo s) of
           Inr _ \<Rightarrow> [ProducerClose (opened s), Sleep 2] | Inl _ \<Rightarrow> [])) \<and>
   (\<exists>evs. list_all run_event evs \<and>
      trace (snd (partitioning_run rs bl n s)) =
        trace s @ ProducerOpen (opened s) 262144 50 (Some ''lz4'') # evs @
        (case fst (partitioning_run rs bl n s) of
           Inr _ \<Rightarrow> [ProducerClose (opened s), Sleep 2] | Inl _ \<Rightarrow> []))"
proof (intro conjI)
  obtain r s' where a: "batch_linger_run f (b, l) s = (r, s')" by fastforce
  from batch_linger_run_shape[OF a] a
  show "\<exists>evs. list_all run_event evs \<and>
      trace (snd (batch_linger_run f (b, l) s)) =
        trace s @ ProducerOpen (opened s) b l (Some ''lz4'') # evs @
        (case fst (batch_linger_run f (b, l) s) of
           Inr _ \<Rightarrow> [ProducerClose (opened s), Sleep 2] | Inl _ \<Rightarrow> [])"
    by (auto simp: step_to_def)
next
  obtain r s' where a: "compression_run rs osz algo s = (r, s')" by fastforce
  from compression_run_shape[OF a] a
  show "\<exists>evs. list_all run_event evs \<and>
      trace (snd (compression_run rs osz algo s)) =
        trace s @ ProducerOpen (opened s) 262144 50 (if algo = ''none'' then None else Some algo) #
        evs @
        (case fst (compression_run rs osz algo s) of
           Inr _ \<Rightarrow> [ProducerClose (opened s), Sleep 2] | Inl _ \<Rightarrow> [])"
    by (auto simp: step_to_def)
next
  obtain r s' where a: "partitioning_run rs bl n s = (r, s')" by fastforce
  from partitioning_run_shape[OF a] a
  show "\<exists>evs. list_all run_event evs \<and>
      trace (snd (partitioning_run rs bl n s)) =
        trace s @ ProducerOpen (opened s) 262144 50 (Some ''lz4'') # evs @
        (case fst (partitioning_run rs bl n s) of
           Inr _ \<Rightarrow> [ProducerClose (opened s), Sleep 2] | Inl _ \<Rightarrow> [])"
    by (auto simp: step_to_def)
qed

text \<open>
  C7 as stated fails: after the timeout of the first wait the producer of the run is
  never closed.
\<close>

theorem producer_left_open_counterexample:
  "ProducerOpen 0 16384 0 (Some ''lz4'') \<in> set (trace (snd (main timeout_state))) \<and>
   ProducerClose 0 \<notin> set (trace (snd (main timeout_state)))"
  by (simp add: main_timeout_state provisioning_events_def topics_def)

lemma main_body_no_file:
  assumes "files s workload_file = None"
  shows "main_body s =
           (Inl FileNotFoundError,
            emit (ProducerOpen (opened s) 16384 0 (Some ''lz4'')) (s\<lparr>opened := Suc (opened s)\<rparr>))"
  using assms
  by (simp add: main_body_def test_batch_linger_def configs_def io_bind_def workload_file_def
      batch_linger_run_no_file)

text \<open>
  C9 (as the code behaves).  The exit status of the process is non-zero exactly when topic
  provisioning, which runs outside the \<open>try\<close> block, raises.  After a successful
  provisioning, a missing workload file makes \<open>main\<close> print the instruction to run the
  generator and return, and any other exception of the \<open>try\<close> block is printed and
  \<open>main\<close> returns: the exit status is 0 in both cases.
\<close>

theorem main_exit_behaviour:
  "exit_status (fst (main s)) =
     (case fst (create_topics (s\<lparr>test_results := []\<rparr>)) of Inl _ \<Rightarrow> 1 | Inr _ \<Rightarrow> 0) \<and>
   (fst (create_topics (s\<lparr>test_results := []\<rparr>)) = Inr () \<and> files s workload_file = None \<longrightarrow>
      fst (main s) = Returned \<and> last (trace (snd (main s))) = Print RunGeneratorFirst) \<and>
   (\<forall>u s1 e s2. create_topics (s\<lparr>test_results := []\<rparr>) = (Inr u, s1) \<and>
      main_body (emit (Sleep 3) s1) = (Inl e, s2) \<and> e \<noteq> FileNotFoundError \<longrightarrow>
      main s = (Returned, emit (Print (ErrorMessage e)) s2))"
proof -
  obtain r0 s0 where c0: "create_topics (s\<lparr>test_results := []\<rparr>) = (r0, s0)" by fastforce
  have A: "exit_status (fst (main s)) =
     (case fst (create_topics (s\<lparr>test_results := []\<rparr>)) of Inl _ \<Rightarrow> 1 | Inr _ \<Rightarrow> 0)"
    using c0 by (cases r0) (auto simp: main_def exit_status_def split: prod.splits sum.splits)
  have B: "fst (main s) = Returned \<and> last (trace (snd (main s))) = Print RunGeneratorFirst"
    if a: "fst (create_topics (s\<lparr>test_results := []\<rparr>)) = Inr () \<and> files s workload_file = None"
  proof -
    from a obtain s1 where c: "create_topics (s\<lparr>test_results := []\<rparr>) = (Inr (), s1)"
      by (cases "create_topics (s\<lparr>test_results := []\<rparr>)") auto
    from create_topics_env[OF c] a have "files (emit (Sleep 3) s1) workload_file = None"
      by (simp add: same_env_def emit_def)
    from main_of_body[OF c main_body_no_file[OF this]] show ?thesis
      by (simp add: emit_def)
  qed
  have C: "main s = (Returned, emit (Print (ErrorMessage e)) s2)"
    if "create_topics (s\<lparr>test_results := []\<rparr>) = (Inr u, s1) \<and>
      main_body (emit (Sleep 3) s1) = (Inl e, s2) \<and> e \<noteq> FileNotFoundError" for u s1 e s2
    using that main_of_body[of s u s1 "Inl e" s2] by simp
  from A B C show ?thesis by blast
qed

lemma main_body_first_run_fails:
  "batch_linger_run workload_file (16384, 0) s = (Inl e, s2) \<Longrightarrow> main_body s = (Inl e, s2)"
  by (simp add: main_body_def test_batch_linger_def configs_def io_bind_def workload_file_def)

theorem main_exit_behaviour_witness:
  "exit_status (fst (main (initial_state no_file no_fault no_fault))) = 0 \<and>
   fst (main (initial_state no_file no_fault no_fault)) = Returned \<and>
   last (trace (snd (main (initial_state no_file no_fault no_fault)))) = Print RunGeneratorFirst \<and>
   (\<exists>s2. main timeout_state = (Returned, emit (Print (ErrorMessage KafkaTimeoutError)) s2))"
proof -
  let ?n = "initial_state no_file no_fault no_fault"
  have "\<forall>t\<in>set topics. admin_fault (?n\<lparr>test_results := []\<rparr>) (nt_name t) = None"
    by (simp add: initial_state_def no_fault_def)
  from create_topics_ok[OF this]
  have n1: "fst (create_topics (?n\<lparr>test_results := []\<rparr>)) = Inr ()" by auto
  have n2: "files ?n workload_file = None"
    by (simp add: initial_state_def no_file_def)
  let ?s = "timeout_state\<lparr>test_results := []\<rparr>"
  have "\<forall>t\<in>set topics. admin_fault ?s (nt_name t) = None"
    by (simp add: timeout_state_def initial_state_def no_fault_def)
  from create_topics_ok[OF this] obtain s1 where prov: "create_topics ?s = (Inr (), s1)" by blast
  from create_topics_env[OF prov]
  have "files (emit (Sleep 3) s1) workload_file = Some [kaplan_record]"
       "ack_fault (emit (Sleep 3) s1) (waits (emit (Sleep 3) s1)) = Some KafkaTimeoutError"
    by (simp_all add: same_env_def emit_def timeout_state_def initial_state_def one_file_def
        fault_at_def workload_file_def)
  from batch_linger_run_timeout[OF this, of "(16384, 0)"] obtain s2 where
    "batch_linger_run workload_file (16384, 0) (emit (Sleep 3) s1) = (Inl KafkaTimeoutError, s2)"
    by blast
  then have body: "main_body (emit (Sleep 3) s1) = (Inl KafkaTimeoutError, s2)"
    by (rule main_body_first_run_fails)
  from main_exit_behaviour[of ?n] n1 n2 main_exit_behaviour[of timeout_state] prov body
  show ?thesis by auto
qed

text \<open>
  C9 as stated fails: a timeout reaches the top level, is printed, and the process ends
  with exit status 0.
\<close>

theorem timeout_exit_status_counterexample:
  "exit_status (fst (main timeout_state)) = 0 \<and>
   last (trace (snd (main timeout_state))) = Print (ErrorMessage KafkaTimeoutError)"
  by (simp add: main_timeout_state exit_status_def)

subsection \<open>The send loops\<close>

text \<open>
  C2 (as the code behaves).  The loop of the batch/linger and compression sweeps handles
  one record at a time: each send is followed by the wait for its acknowledgment before
  the next send.  When every wait is acknowledged it returns exactly one latency sample
  per record, in input order; when the wait of record \<open>k\<close> fails, it raises after the
  send and wait of that record, nothing having been sent beyond.  The loop of the
  partitioning sweep sends the records with their keys and waits for no acknowledgment;
  it produces no latency sample.
\<close>

theorem send_loop_one_at_a_time:
  "((\<forall>i<length rs. ack_fault s (waits s + i) = None) \<longrightarrow>
      fst (send_loop p topic rs [] s) = Inr (map (latency_at s) [0..<length rs]) \<and>
      length (map (latency_at s) [0..<length rs]) = length rs \<and>
      trace (snd (send_loop p topic rs [] s)) = trace s @ sync_events p topic rs) \<and>
   (k < length rs \<and> (\<forall>i<k. ack_fault s (waits s + i) = None) \<and>
      ack_fault s (waits s + k) = Some e \<longrightarrow>
      fst (send_loop p topic rs [] s) = Inl e \<and>
      trace (snd (send_loop p topic rs [] s)) = trace s @ sync_events p topic (take (Suc k) rs)) \<and>
   ((\<forall>r\<in>set rs. turbine_type r \<noteq> None) \<longrightarrow>
      fst (keyed_send_loop p topic rs s) = Inr () \<and>
      trace (snd (keyed_send_loop p topic rs s)) =
        trace s @ map (\<lambda>r. Send p topic (turbine_type r) r) rs)"
proof -
  obtain r1 s1 where a: "send_loop p topic rs [] s = (r1, s1)" by fastforce
  obtain r2 s2 where b: "keyed_send_loop p topic rs s = (r2, s2)" by fastforce
  have A: "fst (send_loop p topic rs [] s) = Inr (map (latency_at s) [0..<length rs]) \<and>
      length (map (latency_at s) [0..<length rs]) = length rs \<and>
      trace (snd (send_loop p topic rs [] s)) = trace s @ sync_events p topic rs"
    if "\<forall>i<length rs. ack_fault s (waits s + i) = None"
    using send_loop_acked[OF that a] a by (simp add: step_to_def)
  have B: "fst (send_loop p topic rs [] s) = Inl e \<and>
      trace (snd (send_loop p topic rs [] s)) = trace s @ sync_events p topic (take (Suc k) rs)"
    if "k < length rs \<and> (\<forall>i<k. ack_fault s (waits s + i) = None) \<and>
      ack_fault s (waits s + k) = Some e"
    using send_loop_timeout[OF _ _ _ a, of k e] that a by (simp add: step_to_def)
  have C: "fst (keyed_send_loop p topic rs s) = Inr () \<and>
      trace (snd (keyed_send_loop p topic rs s)) =
        trace s @ map (\<lambda>r. Send p topic (turbine_type r) r) rs"
    if "\<forall>r\<in>set rs. turbine_type r \<noteq> None"
    using keyed_send_loop_sent[OF that b] b by (simp add: step_to_def)
  from A B C show ?thesis by blast
qed

theorem send_loop_one_at_a_time_witness:
  "fst (send_loop 0 ''hydro-batch-test'' [kaplan_record, kaplan_record] []
          (initial_state no_file no_fault no_fault)) =
     Inr [latency_at (initial_state no_file no_fault no_fault) 0,
          latency_at (initial_state no_file no_fault no_fault) 1] \<and>
   trace (snd (send_loop 0 ''hydro-batch-test'' [kaplan_record, kaplan_record] []
          (initial_state no_file no_fault no_fault))) =
     [Send 0 ''hydro-batch-test'' None kaplan_record, AckWait 0 10,
      Send 0 ''hydro-batch-test'' None kaplan_record, AckWait 0 10] \<and>
   fst (send_loop 0 ''hydro-batch-test'' [kaplan_record, kaplan_record] []
          (initial_state no_file no_fault (fault_at 0 KafkaTimeoutError))) = Inl KafkaTimeoutError \<and>
   trace (snd (send_loop 0 ''hydro-batch-test'' [kaplan_record, kaplan_record] []
          (initial_state no_file no_fault (fault_at 0 KafkaTimeoutError)))) =
     [Send 0 ''hydro-batch-test'' None kaplan_record, AckWait 0 10] \<and>
   trace (snd (keyed_send_loop 0 ''hydro-part-2'' [kaplan_record, kaplan_record]
          (initial_state no_file no_fault no_fault))) =
     [Send 0 ''hydro-part-2'' (Some ''kaplan'') kaplan_record,
      Send 0 ''hydro-part-2'' (Some ''kaplan'') kaplan_record]"
proof -
  let ?s = "initial_state no_file no_fault no_fault"
  let ?t = "initial_state no_file no_fault (fault_at 0 KafkaTimeoutError)"
  let ?rs = "[kaplan_record, kaplan_record]"
  have h1: "\<forall>i<length ?rs. ack_fault ?s (waits ?s + i) = None"
    by (simp add: initial_state_def no_fault_def)
  have h2: "0 < length ?rs \<and> (\<forall>i<0. ack_fault ?t (waits ?t + i) = None) \<and>
      ack_fault ?t (waits ?t + 0) = Some KafkaTimeoutError"
    by (simp add: initial_state_def fault_at_def)
  have h3: "\<forall>r\<in>set ?rs. turbine_type r \<noteq> None"
    by (simp add: kaplan_record_def)
  from send_loop_one_at_a_time[of ?rs ?s 0 "''hydro-batch-test''" 0 KafkaTimeoutError] h1
    send_loop_one_at_a_time[of ?rs ?t 0 "''hydro-batch-test''" 0 KafkaTimeoutError] h2
    send_loop_one_at_a_time[of ?rs ?s 0 "''hydro-part-2''" 0 KafkaTimeoutError] h3
  show ?thesis
    by (simp add: sync_events_def initial_state_def kaplan_record_def upt_rec)
qed

lemma fl_1: "fl 1 = 1"
  by code_simp

lemma fl_2: "fl 2 = 2"
  by code_simp

text \<open>
  C2 as stated fails for the partitioning sweep: a run on two records sends both without
  any wait between them, and its result has no latency entry.
\<close>

theorem partitioning_not_synchronous_counterexample:
  "trace (snd (partitioning_run [kaplan_record, kaplan_record] None 2
                 (initial_state no_file no_fault no_fault))) =
     [ProducerOpen 0 262144 50 (Some ''lz4''),
      Send 0 ''hydro-part-2'' (Some ''kaplan'') kaplan_record,
      Send 0 ''hydro-part-2'' (Some ''kaplan'') kaplan_record,
      Flush 0, ProducerClose 0, Sleep 2] \<and>
   fst (partitioning_run [kaplan_record, kaplan_record] None 2
          (initial_state no_file no_fault no_fault)) =
     Inr ([(''partitions'', PInt 2), (''throughput'', PFloat 2), (''duration'', PFloat 1),
           (''scaling_factor'', PFloat 1)], Some 2)"
  by (simp add: partitioning_run_def partitioning_metrics_def io_defs initial_state_def
      kaplan_record_def str_nat_def fsub_def fdiv_def py_float_def fl_1 fl_2 Let_def)

subsection \<open>The partitioning sweep\<close>

lemma partitioning_metrics_result:
  "partitioning_metrics n rs bl st en = Inr (res, bl') \<Longrightarrow>
   \<exists>t. map_of res ''throughput'' = Some (PFloat t) \<and>
       (case bl of
          None \<Rightarrow> bl' = Some t \<and> map_of res ''scaling_factor'' = Some (PFloat 1)
        | Some b \<Rightarrow> bl' = Some b \<and> scaled_from b res)"
  by (auto simp: partitioning_metrics_def scaled_from_def fdiv_def Let_def
      split: sum.splits option.splits if_splits)

lemma partitioning_run_result:
  assumes "partitioning_run rs bl n s = (Inr (res, bl'), s')"
  shows "\<exists>t. map_of res ''throughput'' = Some (PFloat t) \<and>
       (case bl of
          None \<Rightarrow> bl' = Some t \<and> map_of res ''scaling_factor'' = Some (PFloat 1)
        | Some b \<Rightarrow> bl' = Some b \<and> scaled_from b res)"
proof -
  from assms obtain st en where "partitioning_metrics n rs bl st en = Inr (res, bl')"
    by (auto simp: partitioning_run_def io_defs Let_def split: prod.splits sum.splits)
  then show ?thesis by (rule partitioning_metrics_result)
qed

lemma partitioning_loop_Some:
  "partitioning_loop rs (Some b) ns acc s = (Inr (results, bl'), s') \<Longrightarrow>
   \<exists>new. results = acc @ new \<and> length new = length ns \<and> list_all (scaled_from b) new"
proof (induction ns arbitrary: acc s)
  case Nil
  then show ?case by simp
next
  case (Cons n ns)
  from Cons.prems obtain res b1 s1 where
    r: "partitioning_run rs (Some b) n s = (Inr (res, b1), s1)" and
    l: "partitioning_loop rs b1 ns (acc @ [res]) s1 = (Inr (results, bl'), s')"
    by (auto simp: io_bind_def split: prod.splits sum.splits)
  from partitioning_run_result[OF r] have b1: "b1 = Some b" and sc: "scaled_from b res" by auto
  from Cons.IH[OF l[unfolded b1]] obtain new where
    "results = (acc @ [res]) @ new" "length new = length ns" "list_all (scaled_from b) new"
    by blast
  with sc show ?case by (intro exI[where x="res # new"]) simp
qed

lemma partitioning_loop_None:
  assumes "partitioning_loop rs None (n # ns) acc s = (Inr (results, bl'), s')"
  shows "\<exists>r0 t0 new. results = acc @ r0 # new \<and>
           map_of r0 ''scaling_factor'' = Some (PFloat 1) \<and>
           map_of r0 ''throughput'' = Some (PFloat t0) \<and>
           length new = length ns \<and> list_all (scaled_from t0) new"
proof -
  from assms obtain res b1 s1 where
    r: "partitioning_run rs None n s = (Inr (res, b1), s1)" and
    l: "partitioning_loop rs b1 ns (acc @ [res]) s1 = (Inr (results, bl'), s')"
    by (auto simp: io_bind_def split: prod.splits sum.splits)
  from partitioning_run_result[OF r] obtain t where
    t: "map_of res ''throughput'' = Some (PFloat t)" "b1 = Some t"
       "map_of res ''scaling_factor'' = Some (PFloat 1)" by auto
  from partitioning_loop_Some[OF l[unfolded t(2)]] obtain new where
    "results = (acc @ [res]) @ new" "length new = length ns" "list_all (scaled_from t) new"
    by blast
  with t show ?thesis by (intro exI[where x=res] exI[where x=t] exI[where x=new]) simp
qed

text \<open>
  C5.  Whenever the partitioning sweep returns, it returns three results; the scaling
  factor of the first is exactly 1.0, and the scaling factor of each later one is its
  throughput divided (in floating point) by the throughput of the first.
\<close>

theorem scaling_factor_relative_to_first:
  assumes "test_partitioning f s = (Inr results, s')"
  shows "\<exists>r0 t0 rest. results = r0 # rest \<and> length rest = 2 \<and>
           map_of r0 ''scaling_factor'' = Some (PFloat 1) \<and>
           map_of r0 ''throughput'' = Some (PFloat t0) \<and>
           list_all (scaled_from t0) rest"
proof -
  from assms obtain rs where rs: "files s f = Some rs"
    by (cases "files s f") (auto simp: test_missing_file)
  obtain r1 s1 where l: "partitioning_loop (take 4000 rs) None partition_counts [] s = (r1, s1)"
    by fastforce
  from test_partitioning_cases[OF assms rs l] obtain bl where
    "r1 = Inr (results, bl)" by (cases r1) auto
  with l have "partitioning_loop (take 4000 rs) None (2 # [4, 8]) [] s = (Inr (results, bl), s1)"
    by (simp add: partition_counts_def)
  from partitioning_loop_None[OF this] show ?thesis by auto
qed

lemma fl_dyadic:
  "fl 4 = 4" "fl 16 = 16" "fl (1 / 4) = 1 / 4" "fl (1 / 16) = 1 / 16"
  by code_simp+

theorem scaling_factor_relative_to_first_witness:
  "\<exists>s'. test_partitioning workload_file
          ((initial_state (one_file [kaplan_record, kaplan_record, kaplan_record, kaplan_record]) no_fault no_fault)
             \<lparr>clock := (\<lambda>i. 2 ^ i)\<rparr>) =
     (Inr [[(''partitions'', PInt 2), (''throughput'', PFloat 4), (''duration'', PFloat 1),
            (''scaling_factor'', PFloat 1)],
           [(''partitions'', PInt 4), (''throughput'', PFloat 1), (''duration'', PFloat 4),
            (''scaling_factor'', PFloat (1 / 4))],
           [(''partitions'', PInt 8), (''throughput'', PFloat (1 / 4)), (''duration'', PFloat 16),
            (''scaling_factor'', PFloat (1 / 16))]], s') \<and>
     scaled_from 4 [(''partitions'', PInt 8), (''throughput'', PFloat (1 / 4)),
            (''duration'', PFloat 16), (''scaling_factor'', PFloat (1 / 16))]"
proof -
  let ?s = "(initial_state (one_file [kaplan_record, kaplan_record, kaplan_record, kaplan_record]) no_fault no_fault)
             \<lparr>clock := (\<lambda>i. 2 ^ i)\<rparr>"
  let ?res = "[[(''partitions'', PInt 2), (''throughput'', PFloat 4), (''duration'', PFloat 1),
            (''scaling_factor'', PFloat 1)],
           [(''partitions'', PInt 4), (''throughput'', PFloat 1), (''duration'', PFloat 4),
            (''scaling_factor'', PFloat (1 / 4))],
           [(''partitions'', PInt 8), (''throughput'', PFloat (1 / 4)), (''duration'', PFloat 16),
            (''scaling_factor'', PFloat (1 / 16))]]"
  have ev: "fst (test_partitioning workload_file ?s) = Inr ?res"
    by (simp add: test_partitioning_def partition_counts_def partitioning_run_def
        partitioning_metrics_def io_defs initial_state_def one_file_def workload_file_def
        kaplan_record_def str_nat_def fsub_def fdiv_def py_float_def fl_1 fl_dyadic Let_def)
  then have "test_partitioning workload_file ?s = (Inr ?res, snd (test_partitioning workload_file ?s))"
    by (metis prod.collapse)
  from scaling_factor_relative_to_first[OF this] this show ?thesis
    by (intro exI[where x="snd (test_partitioning workload_file ?s)"]) auto
qed

subsection \<open>Rounding to the nearest double\<close>

lemma rhe_of_int: "round_half_even (of_int k) = k"
  by (simp add: round_half_even_def)

lemma rhe_bounds: "\<lfloor>y\<rfloor> \<le> round_half_even y \<and> round_half_even y \<le> \<lfloor>y\<rfloor> + 1"
  by (simp add: round_half_even_def Let_def)

lemma rhe_near:
  assumes "\<bar>y - of_int k\<bar> < 1 / 2"
  shows "round_half_even y = k"
proof (cases "of_int k \<le> y")
  case True
  with assms have "\<lfloor>y\<rfloor> = k" by (intro floor_unique) (auto simp: abs_if split: if_splits)
  with assms True show ?thesis by (simp add: round_half_even_def Let_def abs_if split: if_splits)
next
  case False
  with assms have f: "\<lfloor>y\<rfloor> = k - 1" by (intro floor_unique) (auto simp: abs_if split: if_splits)
  with assms False show ?thesis
    by (auto simp: round_half_even_def Let_def abs_if split: if_splits)
qed

lemma rhe_mono:
  assumes "x \<le> y"
  shows "round_half_even x \<le> round_half_even y"
proof (cases "\<lfloor>x\<rfloor> < \<lfloor>y\<rfloor>")
  case True
  with rhe_bounds[of x] rhe_bounds[of y] show ?thesis by linarith
next
  case False
  with floor_mono[OF assms] have f: "\<lfloor>x\<rfloor> = \<lfloor>y\<rfloor>" by simp
  with assms show ?thesis
    by (auto simp: round_half_even_def Let_def)
qed

lemma two_powi_pos: "0 < (2::rat) powi e"
  by (simp add: zero_less_power_int)

lemma two_powi_Suc: "(2::rat) powi (e + 1) = 2 * 2 powi e"
  by (simp add: power_int_add)

lemma two_powi_less: "(2::rat) powi a < 2 powi b \<Longrightarrow> a < b"
  by (rule ccontr) (simp add: not_less power_int_increasing leD)

lemma of_int_pow2_le: "(2::int) ^ m \<le> n \<Longrightarrow> (2::rat) ^ m \<le> of_int n"
  by simp

lemma of_int_less_pow2: "n < (2::int) ^ m \<Longrightarrow> (of_int n :: rat) + 1 \<le> 2 ^ m"
proof -
  assume "n < 2 ^ m"
  then have "n + 1 \<le> 2 ^ m" by simp
  then have "(of_int (n + 1) :: rat) \<le> 2 ^ m" by (simp del: of_int_add)
  then show ?thesis by simp
qed

lemma ilog2_bounds:
  assumes "0 < x"
  shows "2 powi (ilog2 x) \<le> x \<and> x < 2 powi (ilog2 x + 1)"
proof (cases "1 \<le> x")
  case True
  define n where "n = \<lfloor>x\<rfloor>"
  have nx: "of_int n \<le> x" "x < of_int n + 1" unfolding n_def by linarith+
  from True have n: "0 < n" unfolding n_def by simp
  define b where "b = bitlen n"
  from bitlen_bounds[OF n] have bb: "2 ^ nat (b - 1) \<le> n" "n < 2 ^ nat b"
    unfolding b_def by auto
  from n have b1: "1 \<le> b" unfolding b_def by (simp add: bitlen_alt_def)
  from of_int_pow2_le[OF bb(1)] nx(1) have "(2::rat) ^ nat (b - 1) \<le> x" by linarith
  then have lo: "2 powi (b - 1) \<le> x" using b1 by (simp add: power_int_nonneg_exp)
  from of_int_less_pow2[OF bb(2)] nx(2) have "x < 2 ^ nat b" by linarith
  then have "x < 2 powi b" using b1 by (simp add: power_int_nonneg_exp)
  then have hi: "x < 2 powi (b - 1 + 1)" by simp
  from lo hi True show ?thesis by (simp add: ilog2_def b_def n_def)
next
  case False
  define y where "y = 1 / x"
  define k where "k = \<lceil>y\<rceil> - 1"
  from False assms have y1: "1 < y" unfolding y_def by simp
  have ky: "of_int k < y" "y \<le> of_int k + 1" unfolding k_def by linarith+
  from y1 ky(2) have k: "0 < k" by linarith
  define b where "b = bitlen k"
  from bitlen_bounds[OF k] have bb: "2 ^ nat (b - 1) \<le> k" "k < 2 ^ nat b"
    unfolding b_def by auto
  from k have b1: "1 \<le> b" unfolding b_def by (simp add: bitlen_alt_def)
  from of_int_less_pow2[OF bb(2)] ky(2) have "y \<le> 2 ^ nat b" by linarith
  then have "y \<le> 2 powi b" using b1 by (simp add: power_int_nonneg_exp)
  then have "1 / 2 powi b \<le> 1 / y"
    using y1 by (intro divide_left_mono) (auto simp: two_powi_pos)
  then have lo: "2 powi (- b) \<le> x" using assms by (simp add: power_int_minus_divide y_def)
  from of_int_pow2_le[OF bb(1)] ky(1) have "2 ^ nat (b - 1) < y" by linarith
  then have "2 powi (b - 1) < y" using b1 by (simp add: power_int_nonneg_exp)
  then have "1 / y < 1 / 2 powi (b - 1)"
    using y1 two_powi_pos[of "b - 1"] by (simp add: frac_less2)
  moreover have "(2::rat) powi (- b + 1) = 1 / 2 powi (b - 1)"
    using power_int_minus_divide[of "2::rat" "b - 1"] by simp
  ultimately have hi: "x < 2 powi (- b + 1)" by (simp add: y_def)
  from lo hi False show ?thesis by (simp add: ilog2_def b_def k_def y_def)
qed

lemma ilog2_unique:
  assumes "2 powi e \<le> x" "x < 2 powi (e + 1)"
  shows "ilog2 x = e"
proof -
  from assms(1) have "0 < x" using two_powi_pos[of e] by linarith
  from ilog2_bounds[OF this] assms
  have "(2::rat) powi (ilog2 x) < 2 powi (e + 1)" "(2::rat) powi e < 2 powi (ilog2 x + 1)" by auto
  from two_powi_less[OF this(1)] two_powi_less[OF this(2)] show ?thesis by simp
qed

lemma ilog2_mono:
  assumes "0 < x" "x \<le> y"
  shows "ilog2 x \<le> ilog2 y"
proof -
  from assms have "0 < y" by simp
  from ilog2_bounds[OF assms(1)] ilog2_bounds[OF this] assms(2)
  have "(2::rat) powi (ilog2 x) < 2 powi (ilog2 y + 1)" by auto
  from two_powi_less[OF this] show ?thesis by simp
qed

lemma two_powi_diff: "(2::rat) powi (a - b) = 2 powi a / 2 powi b"
  by (simp add: power_int_diff)

lemma fl_pos_scaled:
  assumes "0 < x"
  shows "2 ^ 52 \<le> x / 2 powi (ilog2 x - 52) \<and> x / 2 powi (ilog2 x - 52) < 2 ^ 53"
proof -
  define P where "P = (2::rat) powi (ilog2 x)"
  define c where "c = (2::rat) ^ 52"
  have c: "0 < c" "(2::rat) ^ 53 = 2 * c" by (simp_all add: c_def)
  have p: "0 < P" unfolding P_def by (rule two_powi_pos)
  have u: "(2::rat) powi (ilog2 x - 52) = P / c"
    by (simp add: two_powi_diff P_def c_def)
  from ilog2_bounds[OF assms] have b: "P \<le> x" "x < 2 * P"
    by (auto simp: two_powi_Suc P_def)
  have xu: "x / (P / c) = x / P * c" by simp
  from b p have q: "1 \<le> x / P" "x / P < 2"
    by (simp_all add: pos_le_divide_eq pos_divide_less_eq)
  from q(1) c(1) have "1 * c \<le> x / P * c" by (intro mult_right_mono) simp_all
  moreover from q(2) c(1) have "x / P * c < 2 * c" by (intro mult_strict_right_mono) simp_all
  ultimately have "c \<le> x / (P / c) \<and> x / (P / c) < 2 * c" by (simp only: xu mult_1)
  then show ?thesis by (simp only: u c(2) c_def)
qed

lemma fl_pos_range:
  assumes "0 < x"
  shows "2 powi (ilog2 x) \<le> fl_pos x \<and> fl_pos x \<le> 2 powi (ilog2 x + 1)"
proof -
  define u where "u = (2::rat) powi (ilog2 x - 52)"
  define m where "m = round_half_even (x / u)"
  define C where "C = (2::int) ^ 52"
  have u0: "0 < u" unfolding u_def by (rule two_powi_pos)
  have c: "(of_int C :: rat) = 2 ^ 52" "(of_int (2 * C) :: rat) = 2 ^ 53" by (simp_all add: C_def)
  from fl_pos_scaled[OF assms] have s: "of_int C \<le> x / u" "x / u \<le> of_int (2 * C)"
    unfolding c u_def by simp_all
  from rhe_mono[OF s(1)] rhe_mono[OF s(2)] have mb: "C \<le> m" "m \<le> 2 * C"
    unfolding m_def by (simp_all only: rhe_of_int)
  then have "(of_int C :: rat) \<le> of_int m" "(of_int m :: rat) \<le> of_int (2 * C)"
    by (simp_all only: of_int_le_iff)
  then have "of_int C * u \<le> of_int m * u" "of_int m * u \<le> of_int (2 * C) * u"
    using u0 by (simp_all only: mult_le_cancel_right_pos)
  moreover have "of_int C * u = 2 powi (ilog2 x)"
    unfolding c u_def by (simp add: two_powi_diff)
  moreover have "of_int (2 * C) * u = 2 powi (ilog2 x + 1)"
    unfolding c u_def by (simp add: two_powi_diff two_powi_Suc)
  moreover have "fl_pos x = of_int m * u"
    by (simp add: fl_pos_def Let_def m_def u_def)
  ultimately show ?thesis by simp
qed

lemma fl_pos_pos: "0 < x \<Longrightarrow> 0 < fl_pos x"
  using fl_pos_range[of x] two_powi_pos[of "ilog2 x"] by linarith

lemma fl_pos_mono:
  assumes "0 < x" "x \<le> y"
  shows "fl_pos x \<le> fl_pos y"
proof (cases "ilog2 x = ilog2 y")
  case True
  let ?u = "(2::rat) powi (ilog2 y - 52)"
  have "x / ?u \<le> y / ?u" using assms(2) two_powi_pos[of "ilog2 y - 52"]
    by (simp add: divide_right_mono)
  from rhe_mono[OF this] have "(of_int (round_half_even (x / ?u)) :: rat) \<le> of_int (round_half_even (y / ?u))"
    by simp
  then show ?thesis using True two_powi_pos[of "ilog2 y - 52"]
    by (simp add: fl_pos_def Let_def)
next
  case False
  from assms have y: "0 < y" by simp
  from False ilog2_mono[OF assms] have "ilog2 x + 1 \<le> ilog2 y" by simp
  then have "(2::rat) powi (ilog2 x + 1) \<le> 2 powi (ilog2 y)"
    by (intro power_int_increasing) simp_all
  with fl_pos_range[OF assms(1)] fl_pos_range[OF y] show ?thesis by linarith
qed

lemma fl_pos_exact:
  assumes "0 < m" "m < 2 ^ 53"
  shows "fl_pos (of_int m * 2 powi k) = of_int m * 2 powi k"
proof -
  define x where "x = (of_int m :: rat) * 2 powi k"
  define e where "e = ilog2 x"
  define u where "u = (2::rat) powi (e - 52)"
  have x: "0 < x" using assms(1) two_powi_pos[of k] by (simp add: x_def)
  have u0: "0 < u" unfolding u_def by (rule two_powi_pos)
  from assms(2) have "(of_int m :: rat) < 2 ^ 53" by simp
  then have "x < 2 ^ 53 * 2 powi k" using two_powi_pos[of k] by (simp add: x_def)
  also have "\<dots> = 2 powi (53 + k)" by (simp add: power_int_add)
  finally have "x < 2 powi (53 + k)" .
  with ilog2_bounds[OF x] have "(2::rat) powi e < 2 powi (53 + k)" unfolding e_def by linarith
  from two_powi_less[OF this] have d: "0 \<le> k - (e - 52)" by simp
  define d where "d = nat (k - (e - 52))"
  have kd: "k = (e - 52) + int d" using d by (simp add: d_def)
  have H: "(2::rat) powi k = u * 2 ^ d"
    unfolding u_def by (subst kd) (simp add: power_int_add)
  have "x / u = of_int m * (u * 2 ^ d) / u" by (simp add: x_def H)
  also have "\<dots> = of_int (m * 2 ^ d)" using u0 by simp
  finally have "round_half_even (x / u) = m * 2 ^ d"
    by (simp only: rhe_of_int)
  then have "fl_pos x = of_int (m * 2 ^ d) * u"
    by (simp add: fl_pos_def Let_def u_def e_def)
  also have "\<dots> = of_int m * (u * 2 ^ d)" by simp
  also have "\<dots> = x" by (simp add: x_def H)
  finally show ?thesis by (simp add: x_def)
qed

lemma fl_exact:
  assumes "\<bar>m\<bar> < 2 ^ 53"
  shows "fl (of_int m * 2 powi k) = of_int m * 2 powi k"
proof (cases "m = 0")
  case True
  then show ?thesis by (simp add: fl_def)
next
  case False
  show ?thesis
  proof (cases "0 < m")
    case True
    with assms have "m < 2 ^ 53" by simp
    from fl_pos_exact[OF True this, of k] True two_powi_pos[of k] show ?thesis
      by (simp add: fl_def)
  next
    case f: False
    with False assms have m: "0 < - m" "- m < 2 ^ 53" by simp_all
    have neg: "(of_int m :: rat) * 2 powi k < 0"
      using m(1) two_powi_pos[of k] by (simp add: mult_neg_pos)
    from fl_pos_exact[OF m, of k] neg show ?thesis
      by (simp add: fl_def)
  qed
qed

lemma fl_nonneg: "0 \<le> x \<Longrightarrow> 0 \<le> fl x"
  using fl_pos_pos[of x] by (auto simp: fl_def less_eq_rat_def)

lemma fl_nonpos: "x \<le> 0 \<Longrightarrow> fl x \<le> 0"
  using fl_pos_pos[of "- x"] by (auto simp: fl_def less_eq_rat_def)

lemma fl_mono:
  assumes "x \<le> y"
  shows "fl x \<le> fl y"
proof -
  consider "0 < x" | "x \<le> 0" "0 \<le> y" | "y < 0" by linarith
  then show ?thesis
  proof cases
    case 1
    with assms have "0 < y" by simp
    with 1 fl_pos_mono[OF 1 assms] show ?thesis by (simp add: fl_def)
  next
    case 2
    with fl_nonneg[of y] fl_nonpos[of x] show ?thesis by linarith
  next
    case 3
    with assms have "x < 0" by simp
    from 3 assms have "0 < - y" "- y \<le> - x" by simp_all
    from fl_pos_mono[OF this] 3 \<open>x < 0\<close> show ?thesis by (simp add: fl_def)
  qed
qed

lemma fl_int: "\<bar>m\<bar> < 2 ^ 53 \<Longrightarrow> fl (of_int m) = of_int m"
  using fl_exact[of m 0] by simp

lemma fl_int_div: "\<bar>m\<bar> < 2 ^ 53 \<Longrightarrow> fl (of_int m / 2 ^ j) = of_int m / 2 ^ j"
  using fl_exact[of m "- int j"] by (simp add: power_int_minus_divide)

lemma fl_between:
  assumes "a \<le> x" "x \<le> b" "fl a = a" "fl b = b"
  shows "a \<le> fl x \<and> fl x \<le> b"
  using fl_mono[OF assms(1)] fl_mono[OF assms(2)] assms(3,4) by simp

lemma fl_near:
  assumes "0 < x" "ilog2 x \<le> 52" "\<bar>x - of_int q\<bar> * 2 < 2 powi (ilog2 x - 52)"
  shows "fl x = of_int q"
proof -
  define u where "u = (2::rat) powi (ilog2 x - 52)"
  define d where "d = nat (52 - ilog2 x)"
  define D where "D = (2::rat) ^ d"
  have D0: "0 < D" by (simp add: D_def)
  have u: "u = 1 / D"
    using assms(2) power_int_minus_divide[of "2::rat" "52 - ilog2 x"]
    by (simp add: d_def D_def u_def power_int_nonneg_exp)
  have "x / u - of_int (q * 2 ^ d) = (x - of_int q) * D"
    by (simp add: u D_def algebra_simps)
  then have "\<bar>x / u - of_int (q * 2 ^ d)\<bar> = \<bar>x - of_int q\<bar> * D"
    using D0 by (simp add: abs_mult)
  also have "\<dots> < 1 / 2"
    using assms(3) D0 unfolding u_def[symmetric] u by (simp add: field_simps)
  finally have "round_half_even (x / u) = q * 2 ^ d" by (rule rhe_near)
  then have "fl_pos x = of_int (q * 2 ^ d) * u" by (simp add: fl_pos_def Let_def u_def)
  also have "\<dots> = of_int q" using D0 by (simp add: u D_def)
  finally show ?thesis using assms(1) by (simp add: fl_def)
qed

lemma lit_values:
  "lit_0_95 = 8556839292003942 / 2 ^ 53"
  "lit_0_99 = 8917127262193582 / 2 ^ 53"
  "lit_0_40 = 3602879701896397 / 2 ^ 53"
  "lit_0_35 = 3152519739159347 / 2 ^ 53"
  "lit_0_25 = 1 / 4"
  by code_simp+

lemma lit_scaled:
  "20 * lit_0_95 = 19 - 8 / 2 ^ 53"
  "100 * lit_0_99 = 99 - 8 / 2 ^ 53"
  "5 * lit_0_40 = 2 + 1 / 2 ^ 53"
  "20 * lit_0_35 = 7 - 4 / 2 ^ 53"
  by (simp_all add: lit_values)

lemma py_float_exact: "\<bar>n\<bar> < 2 ^ 53 \<Longrightarrow> py_float n = of_int n"
  by (simp add: py_float_def fl_int)

lemma py_int_nonneg: "0 \<le> x \<Longrightarrow> py_int x = \<lfloor>x\<rfloor>"
  by (simp add: py_int_def)

lemma floor_fl_between:
  assumes "0 \<le> q" "q < 2 ^ 44" "of_int q \<le> x" "x \<le> of_int q + 127 / 128"
  shows "\<lfloor>fl x\<rfloor> = q"
proof -
  have a: "fl (of_int q) = of_int q" using assms(1,2) by (intro fl_int) simp
  have "\<bar>q * 128 + 127\<bar> < 2 ^ 53" using assms(1,2) by simp
  from fl_int_div[OF this, of 7] have b: "fl (of_int q + 127 / 128) = of_int q + 127 / 128"
    by (simp add: field_simps)
  from fl_between[OF assms(3,4) a b] show ?thesis
    by (intro floor_unique) auto
qed

lemma fl_just_below:
  assumes "0 < x" "x \<le> of_int q" "q < 2 ^ 53" "(of_int q - x) * 2 ^ 54 \<le> x"
  shows "fl x = of_int q"
proof -
  define P where "P = (2::rat) powi (ilog2 x)"
  from ilog2_bounds[OF assms(1)] have b: "P \<le> x" "x < 2 * P"
    by (auto simp: two_powi_Suc P_def)
  from assms(3) have "(of_int q :: rat) < 2 ^ 53" by simp
  with b(1) assms(2) have "P < 2 ^ 53" by linarith
  then have "(2::rat) powi (ilog2 x) < 2 powi 53" by (simp add: P_def)
  from two_powi_less[OF this] have e: "ilog2 x \<le> 52" by simp
  have u: "(2::rat) powi (ilog2 x - 52) = P / 2 ^ 52"
    by (simp add: two_powi_diff P_def)
  have "\<bar>x - of_int q\<bar> * 2 < P / 2 ^ 52"
    using assms(2,4) b by (simp add: abs_if field_simps)
  with u have "\<bar>x - of_int q\<bar> * 2 < 2 powi (ilog2 x - 52)" by simp
  from fl_near[OF assms(1) e this] show ?thesis .
qed

lemma index_0_95:
  assumes "0 < n" "n < 2 ^ 44"
  shows "py_int (fmul (py_float n) lit_0_95) = (19 * n) div 20"
proof -
  define q where "q = (19 * n) div 20"
  define r where "r = (19 * n) mod 20"
  define x where "x = of_int n * lit_0_95"
  have qr: "19 * n = 20 * q + r" "0 \<le> r" "r < 20" by (simp_all add: q_def r_def)
  then have qr': "19 * (of_int n :: rat) = 20 * of_int q + of_int r"
    by (metis of_int_add of_int_mult of_int_numeral)
  have nn: "(0::rat) < of_int n" "(of_int n :: rat) < 2 ^ 44" using assms by simp_all
  have q0: "0 \<le> q" "q < 2 ^ 44" using assms qr by simp_all
  have xe: "20 * x = 19 * of_int n - of_int n * (8 / 2 ^ 53)"
    using lit_scaled(1) by (simp add: x_def algebra_simps)
  have x0: "0 < x" using xe nn by simp
  have "fl x \<ge> 0" using x0 by (intro fl_nonneg) simp
  have "\<lfloor>fl x\<rfloor> = q"
  proof (cases "r = 0")
    case True
    with qr' xe have "20 * x = 20 * of_int q - of_int n * (8 / 2 ^ 53)" by simp
    moreover from True qr' have "of_int q = 19 * (of_int n :: rat) / 20" by simp
    ultimately have "x \<le> of_int q" "(of_int q - x) * 2 ^ 54 \<le> x"
      using nn by simp_all
    from fl_just_below[OF x0 this(1) _ this(2)] q0 show ?thesis by simp
  next
    case False
    with qr have "1 \<le> r" "r \<le> 19" by simp_all
    then have "(1::rat) \<le> of_int r" "(of_int r :: rat) \<le> 19" by simp_all
    with qr' xe nn have "of_int q \<le> x" "x \<le> of_int q + 127 / 128" by simp_all
    from floor_fl_between[OF q0 this] show ?thesis .
  qed
  with \<open>fl x \<ge> 0\<close> show ?thesis
    using assms by (simp add: fmul_def py_float_exact py_int_nonneg x_def q_def)
qed

subsection \<open>The size model of the compression sweep\<close>

lemma index_0_99:
  assumes "0 < n" "n < 2 ^ 44"
  shows "py_int (fmul (py_float n) lit_0_99) = (99 * n) div 100"
proof -
  define q where "q = (99 * n) div 100"
  define r where "r = (99 * n) mod 100"
  define x where "x = of_int n * lit_0_99"
  have qr: "99 * n = 100 * q + r" "0 \<le> r" "r < 100" by (simp_all add: q_def r_def)
  then have qr': "99 * (of_int n :: rat) = 100 * of_int q + of_int r"
    by (metis of_int_add of_int_mult of_int_numeral)
  have nn: "(0::rat) < of_int n" "(of_int n :: rat) < 2 ^ 44" using assms by simp_all
  have q0: "0 \<le> q" "q < 2 ^ 44" using assms qr by simp_all
  have xe: "100 * x = 99 * of_int n - of_int n * (8 / 2 ^ 53)"
    using lit_scaled(2) by (simp add: x_def algebra_simps)
  have x0: "0 < x" using xe nn by simp
  have "fl x \<ge> 0" using x0 by (intro fl_nonneg) simp
  have "\<lfloor>fl x\<rfloor> = q"
  proof (cases "r = 0")
    case True
    with qr' xe have "100 * x = 100 * of_int q - of_int n * (8 / 2 ^ 53)" by simp
    moreover from True qr' have "of_int q = 99 * (of_int n :: rat) / 100" by simp
    ultimately have "x \<le> of_int q" "(of_int q - x) * 2 ^ 54 \<le> x"
      using nn by simp_all
    from fl_just_below[OF x0 this(1) _ this(2)] q0 show ?thesis by simp
  next
    case False
    with qr have "1 \<le> r" "r \<le> 99" by simp_all
    then have "(1::rat) \<le> of_int r" "(of_int r :: rat) \<le> 99" by simp_all
    with qr' xe nn have "of_int q \<le> x" "x \<le> of_int q + 127 / 128" by simp_all
    from floor_fl_between[OF q0 this] show ?thesis .
  qed
  with \<open>fl x \<ge> 0\<close> show ?thesis
    using assms by (simp add: fmul_def py_float_exact py_int_nonneg x_def q_def)
qed

lemma size_0_40:
  assumes "0 < n" "n < 2 ^ 44"
  shows "py_int (fmul (py_float n) lit_0_40) = (2 * n) div 5"
proof -
  define q where "q = (2 * n) div 5"
  define r where "r = (2 * n) mod 5"
  define x where "x = of_int n * lit_0_40"
  have qr: "2 * n = 5 * q + r" "0 \<le> r" "r < 5" by (simp_all add: q_def r_def)
  then have qr': "2 * (of_int n :: rat) = 5 * of_int q + of_int r"
    by (metis of_int_add of_int_mult of_int_numeral)
  have nn: "(0::rat) < of_int n" "(of_int n :: rat) < 2 ^ 44" using assms by simp_all
  have q0: "0 \<le> q" "q < 2 ^ 44" using assms qr by simp_all
  have xe: "5 * x = 2 * of_int n + of_int n * (1 / 2 ^ 53)"
    using lit_scaled(3) by (simp add: x_def algebra_simps)
  have x0: "0 < x" using xe nn by simp
  have "fl x \<ge> 0" using x0 by (intro fl_nonneg) simp
  from qr have "r \<le> 4" by simp
  then have "(0::rat) \<le> of_int r" "(of_int r :: rat) \<le> 4" using qr(2) by simp_all
  with qr' xe nn have "of_int q \<le> x" "x \<le> of_int q + 127 / 128" by simp_all
  from floor_fl_between[OF q0 this] \<open>fl x \<ge> 0\<close> show ?thesis
    using assms by (simp add: fmul_def py_float_exact py_int_nonneg x_def q_def)
qed

lemma size_0_25:
  assumes "0 < n" "n < 2 ^ 44"
  shows "py_int (fmul (py_float n) lit_0_25) = n div 4"
proof -
  define q where "q = n div 4"
  define r where "r = n mod 4"
  define x where "x = of_int n * lit_0_25"
  have qr: "n = 4 * q + r" "0 \<le> r" "r < 4" by (simp_all add: q_def r_def)
  then have qr': "(of_int n :: rat) = 4 * of_int q + of_int r"
    by (metis of_int_add of_int_mult of_int_numeral)
  have q0: "0 \<le> q" "q < 2 ^ 44" using assms qr by simp_all
  have xe: "4 * x = of_int n" by (simp add: x_def lit_values)
  have x0: "0 < x" using xe assms by simp
  have "fl x \<ge> 0" using x0 by (intro fl_nonneg) simp
  from qr have "r \<le> 3" by simp
  then have "(0::rat) \<le> of_int r" "(of_int r :: rat) \<le> 3" using qr(2) by simp_all
  with qr' xe have "of_int q \<le> x" "x \<le> of_int q + 127 / 128" by simp_all
  from floor_fl_between[OF q0 this] \<open>fl x \<ge> 0\<close> show ?thesis
    using assms by (simp add: fmul_def py_float_exact py_int_nonneg x_def q_def)
qed

lemma size_0_35:
  assumes "0 < n" "n < 2 ^ 44"
  shows "(7 * n) div 20 - 1 \<le> py_int (fmul (py_float n) lit_0_35) \<and>
         py_int (fmul (py_float n) lit_0_35) \<le> (7 * n) div 20"
proof -
  define q where "q = (7 * n) div 20"
  define r where "r = (7 * n) mod 20"
  define x where "x = of_int n * lit_0_35"
  have qr: "7 * n = 20 * q + r" "0 \<le> r" "r < 20" by (simp_all add: q_def r_def)
  then have qr': "7 * (of_int n :: rat) = 20 * of_int q + of_int r"
    by (metis of_int_add of_int_mult of_int_numeral)
  have nn: "(0::rat) < of_int n" "(of_int n :: rat) < 2 ^ 44" using assms by simp_all
  have q0: "0 \<le> q" "q < 2 ^ 44" using assms qr by simp_all
  have xe: "20 * x = 7 * of_int n - of_int n * (4 / 2 ^ 53)"
    using lit_scaled(4) by (simp add: x_def algebra_simps)
  have x0: "0 < x" using xe nn by simp
  have f0: "fl x \<ge> 0" using x0 by (intro fl_nonneg) simp
  from qr have "r \<le> 19" by simp
  then have rr: "(0::rat) \<le> of_int r" "(of_int r :: rat) \<le> 19" using qr(2) by simp_all
  with qr' xe nn have b: "of_int q - 1 \<le> x" "x \<le> of_int q + 127 / 128" by simp_all
  have "q - 1 \<le> \<lfloor>fl x\<rfloor> \<and> \<lfloor>fl x\<rfloor> \<le> q"
  proof (cases "q = 0")
    case True
    with b(2) x0 have "of_int q \<le> x" by simp
    from floor_fl_between[OF q0 this b(2)] show ?thesis by simp
  next
    case False
    with q0 have q1: "0 \<le> q - 1" "q - 1 < 2 ^ 44" by simp_all
    have a: "fl (of_int (q - 1)) = of_int (q - 1)" using q1 by (intro fl_int) simp
    have "\<bar>q * 128 + 127\<bar> < 2 ^ 53" using q0 by simp
    from fl_int_div[OF this, of 7] have c: "fl (of_int q + 127 / 128) = of_int q + 127 / 128"
      by (simp add: field_simps)
    from b(1) have "of_int (q - 1) \<le> x" by simp
    from fl_between[OF this b(2) a c]
    have "of_int (q - 1) \<le> fl x" "fl x < of_int q + 1" by simp_all
    then have "q - 1 \<le> \<lfloor>fl x\<rfloor>" "\<lfloor>fl x\<rfloor> < q + 1"
      by (simp_all only: le_floor_iff floor_less_iff)
    then show ?thesis by simp
  qed
  with f0 show ?thesis
    using assms by (simp add: fmul_def py_float_exact py_int_nonneg x_def q_def)
qed

lemma size_0_35_at_180: "py_int (fmul (py_float 180) lit_0_35) = 62"
  by code_simp

lemma float_ratio_eq: "float_ratio c n = fl (fl (1 - fl (of_int c / of_int n)) * 100)"
  using py_float_exact[of 1] py_float_exact[of 100] by (simp add: float_ratio_def fmul_def fsub_def)

lemma float_ratio_antimono:
  assumes "c1 \<le> c2" "0 < n"
  shows "float_ratio c2 n \<le> float_ratio c1 n"
proof -
  from assms have "(of_int c1 :: rat) / of_int n \<le> of_int c2 / of_int n"
    by (simp add: divide_right_mono)
  then have "fl (of_int c1 / of_int n) \<le> fl (of_int c2 / of_int n)" by (rule fl_mono)
  then have "fl (1 - fl (of_int c2 / of_int n)) \<le> fl (1 - fl (of_int c1 / of_int n))"
    by (intro fl_mono) simp
  then show ?thesis unfolding float_ratio_eq by (intro fl_mono) simp
qed

lemma float_ratio_lower:
  assumes "(of_int c :: rat) / of_int n \<le> 1 / 4"
  shows "75 \<le> float_ratio c n"
proof -
  have e: "fl (1 / 4) = 1 / 4" "fl (3 / 4) = 3 / 4" "fl 75 = 75"
    using fl_int_div[of 1 2] fl_int_div[of 3 2] fl_int[of 75] by simp_all
  from fl_mono[OF assms] have "fl (of_int c / of_int n) \<le> 1 / 4" by (simp add: e)
  then have "3 / 4 \<le> 1 - fl (of_int c / of_int n)" by simp
  from fl_mono[OF this] have "3 / 4 \<le> fl (1 - fl (of_int c / of_int n))" by (simp add: e)
  then have "75 \<le> fl (1 - fl (of_int c / of_int n)) * 100" by simp
  from fl_mono[OF this] show ?thesis by (simp add: e float_ratio_eq)
qed

lemma float_ratio_upper:
  assumes "9 / 32 \<le> (of_int c :: rat) / of_int n"
  shows "float_ratio c n \<le> 575 / 8"
proof -
  have e: "fl (9 / 32) = 9 / 32" "fl (23 / 32) = 23 / 32" "fl (575 / 8) = 575 / 8"
    using fl_int_div[of 9 5] fl_int_div[of 23 5] fl_int_div[of 575 3] by simp_all
  from fl_mono[OF assms] have "9 / 32 \<le> fl (of_int c / of_int n)" by (simp add: e)
  then have "1 - fl (of_int c / of_int n) \<le> 23 / 32" by simp
  from fl_mono[OF this] have "fl (1 - fl (of_int c / of_int n)) \<le> 23 / 32" by (simp add: e)
  then have "fl (1 - fl (of_int c / of_int n)) * 100 \<le> 575 / 8" by simp
  from fl_mono[OF this] show ?thesis by (simp add: e float_ratio_eq)
qed

lemma factor_get_values:
  "factor_get ''snappy'' = lit_0_40" "factor_get ''lz4'' = lit_0_35" "factor_get ''zstd'' = lit_0_25"
  by (simp_all add: factor_get_def compression_factors_def)

lemma compression_model_modeled:
  assumes "algo \<noteq> ''none''" "n \<noteq> 0"
  shows "compression_model algo n =
           Inr (py_int (fmul (py_float n) (factor_get algo)),
                float_ratio (py_int (fmul (py_float n) (factor_get algo))) n)"
  using assms by (simp add: compression_model_def idiv_def float_ratio_def Let_def)

lemma snappy_size_bound:
  assumes "0 < (n::int)" "n \<notin> {1, 2, 4}"
  shows "9 * n \<le> 32 * ((2 * n) div 5)"
proof (cases "7 \<le> n")
  case True
  define q where "q = (2 * n) div 5"
  define r where "r = (2 * n) mod 5"
  have "2 * n = 5 * q + r" "r < 5" by (simp_all add: q_def r_def)
  with True show ?thesis unfolding q_def[symmetric] by linarith
next
  case False
  with assms have "n = 3 \<or> n = 5 \<or> n = 6" by auto
  then show ?thesis by auto
qed

lemma quarter_le_two_fifths: "0 < (n::int) \<Longrightarrow> n div 4 \<le> (2 * n) div 5"
proof -
  assume "0 < n"
  define q where "q = (2 * n) div 5"
  define r where "r = (2 * n) mod 5"
  define a where "a = n div 4"
  define b where "b = n mod 4"
  have "2 * n = 5 * q + r" "r < 5" "n = 4 * a + b" "0 \<le> b" by (simp_all add: q_def r_def a_def b_def)
  with \<open>0 < n\<close> show ?thesis unfolding q_def[symmetric] a_def[symmetric] by linarith
qed

text \<open>
  C4 (as the code behaves).  For a sample of serialised size \<open>n > 0\<close> (below
  \<open>2^44\<close> bytes, where the float products are close enough to the exact ones): the codec
  \<open>none\<close> has compressed size \<open>n\<close> and ratio exactly 0.0; snappy has compressed size
  \<open>floor(2n/5)\<close> and zstd \<open>floor(n/4)\<close>, each with ratio \<open>(1 - size / n) * 100\<close> in
  floating point; the ratio of zstd is never below that of snappy, and is strictly above it
  unless \<open>n\<close> is 1, 2 or 4; the compressed size of lz4, \<open>int(n * 0.35)\<close> in floating
  point, is \<open>floor(7n/20)\<close> or one less.
\<close>

theorem compression_model_ratios:
  assumes "0 < n" "n < 2 ^ 44"
  shows "compression_model ''none'' n = Inr (n, 0) \<and>
         compression_model ''snappy'' n = Inr ((2 * n) div 5, float_ratio ((2 * n) div 5) n) \<and>
         compression_model ''zstd'' n = Inr (n div 4, float_ratio (n div 4) n) \<and>
         float_ratio ((2 * n) div 5) n \<le> float_ratio (n div 4) n \<and>
         (n \<notin> {1, 2, 4} \<longrightarrow> float_ratio ((2 * n) div 5) n < float_ratio (n div 4) n) \<and>
         (\<exists>c. compression_model ''lz4'' n = Inr (c, float_ratio c n) \<and>
              (7 * n) div 20 - 1 \<le> c \<and> c \<le> (7 * n) div 20)"
proof -
  from assms have n0: "n \<noteq> 0" by simp
  have A: "compression_model ''none'' n = Inr (n, 0)" by (simp add: compression_model_def)
  have B: "compression_model ''snappy'' n = Inr ((2 * n) div 5, float_ratio ((2 * n) div 5) n)"
    using compression_model_modeled[of "''snappy''" n] n0 size_0_40[OF assms]
    by (simp add: factor_get_values)
  have C: "compression_model ''zstd'' n = Inr (n div 4, float_ratio (n div 4) n)"
    using compression_model_modeled[of "''zstd''" n] n0 size_0_25[OF assms]
    by (simp add: factor_get_values)
  from float_ratio_antimono[OF quarter_le_two_fifths[OF assms(1)] assms(1)]
  have D: "float_ratio ((2 * n) div 5) n \<le> float_ratio (n div 4) n" .
  have E: "float_ratio ((2 * n) div 5) n < float_ratio (n div 4) n" if "n \<notin> {1, 2, 4}"
  proof -
    have nn: "(0::rat) < of_int n" using assms(1) by simp
    from snappy_size_bound[OF assms(1) that] have "9 * n \<le> 32 * ((2 * n) div 5)" .
    then have "(of_int (9 * n) :: rat) \<le> of_int (32 * ((2 * n) div 5))"
      by (simp only: of_int_le_iff)
    then have "9 / 32 \<le> (of_int ((2 * n) div 5) :: rat) / of_int n"
      using nn by (simp add: field_simps)
    from float_ratio_upper[OF this] have u: "float_ratio ((2 * n) div 5) n \<le> 575 / 8" .
    have "4 * (n div 4) \<le> n" by simp
    then have "(of_int (4 * (n div 4)) :: rat) \<le> of_int n" by (simp only: of_int_le_iff)
    then have "(of_int (n div 4) :: rat) / of_int n \<le> 1 / 4"
      using nn by (simp add: field_simps)
    from float_ratio_lower[OF this] u show ?thesis by linarith
  qed
  have F: "\<exists>c. compression_model ''lz4'' n = Inr (c, float_ratio c n) \<and>
              (7 * n) div 20 - 1 \<le> c \<and> c \<le> (7 * n) div 20"
    using compression_model_modeled[of "''lz4''" n] n0 size_0_35[OF assms]
    by (simp add: factor_get_values)
  from A B C D E F show ?thesis by blast
qed

theorem compression_model_ratios_witness:
  "compression_model ''none'' 1200000 = Inr (1200000, 0) \<and>
   compression_model ''snappy'' 1200000 = Inr (480000, float_ratio 480000 1200000) \<and>
   compression_model ''zstd'' 1200000 = Inr (300000, float_ratio 300000 1200000) \<and>
   float_ratio 480000 1200000 < float_ratio 300000 1200000"
  using compression_model_ratios[of 1200000] by simp

text \<open>
  C4 as stated fails on a sample of two empty objects: its serialised size is 4, snappy
  and zstd both get the compressed size 1 and the same ratio 75.0.
\<close>

theorem equal_ratios_counterexample:
  "original_size_of [empty_object, empty_object] = 4 \<and>
   compression_model ''snappy'' 4 = Inr (1, 75) \<and>
   compression_model ''zstd'' 4 = Inr (1, 75)"
  by code_simp

lemma lz4_size_at_180:
  "compression_model ''lz4'' 180 = Inr (62, float_ratio 62 180) \<and> (7 * 180) div 20 = (63::int)"
  using compression_model_modeled[of "''lz4''" 180] size_0_35_at_180
  by (simp add: factor_get_values)

subsection \<open>The latency reduction\<close>

lemma rank_bounds:
  assumes "0 < (n::int)"
  shows "0 \<le> (19 * n) div 20" "(19 * n) div 20 < n" "0 \<le> (99 * n) div 100"
    "(99 * n) div 100 < n" "(19 * n) div 20 \<le> (99 * n) div 100"
proof -
  define q where "q = (19 * n) div 20"
  define r where "r = (19 * n) mod 20"
  define q' where "q' = (99 * n) div 100"
  define r' where "r' = (99 * n) mod 100"
  have e: "19 * n = 20 * q + r" "0 \<le> r" "r < 20" "99 * n = 100 * q' + r'" "0 \<le> r'" "r' < 100"
    by (simp_all add: q_def r_def q'_def r'_def)
  with assms show "0 \<le> (19 * n) div 20" "(19 * n) div 20 < n" "0 \<le> (99 * n) div 100"
    "(99 * n) div 100 < n" "(19 * n) div 20 \<le> (99 * n) div 100"
    unfolding q_def[symmetric] q'_def[symmetric] by linarith+
qed

lemma floor_rank:
  "\<lfloor>95 / 100 * (of_nat n :: rat)\<rfloor> = (19 * int n) div 20"
  "\<lfloor>99 / 100 * (of_nat n :: rat)\<rfloor> = (99 * int n) div 100"
proof -
  have "95 / 100 * (of_nat n :: rat) = of_int (19 * int n) / of_int 20" by simp
  then show "\<lfloor>95 / 100 * (of_nat n :: rat)\<rfloor> = (19 * int n) div 20"
    by (simp only: floor_divide_of_int_eq)
  have "99 / 100 * (of_nat n :: rat) = of_int (99 * int n) / of_int 100" by simp
  then show "\<lfloor>99 / 100 * (of_nat n :: rat)\<rfloor> = (99 * int n) div 100"
    by (simp only: floor_divide_of_int_eq)
qed

lemma percentile_lookup:
  assumes "lats \<noteq> []" "length lats < 2 ^ 44"
  shows "py_index (sort lats) (py_int (fmul (py_float (int (length lats))) lit_0_95)) =
           Inr (sort lats ! nat ((19 * int (length lats)) div 20))"
    and "py_index (sort lats) (py_int (fmul (py_float (int (length lats))) lit_0_99)) =
           Inr (sort lats ! nat ((99 * int (length lats)) div 100))"
proof -
  from assms have n: "0 < int (length lats)" "int (length lats) < 2 ^ 44" by simp_all
  from rank_bounds[OF n(1)] index_0_95[OF n] index_0_99[OF n]
  show "py_index (sort lats) (py_int (fmul (py_float (int (length lats))) lit_0_95)) =
           Inr (sort lats ! nat ((19 * int (length lats)) div 20))"
    and "py_index (sort lats) (py_int (fmul (py_float (int (length lats))) lit_0_99)) =
           Inr (sort lats ! nat ((99 * int (length lats)) div 100))"
    by (simp_all add: py_index_def)
qed

lemma batch_linger_metrics_result:
  assumes "lats \<noteq> []" "length lats < 2 ^ 44" "fsub en st \<noteq> 0"
  shows "batch_linger_metrics b l rs lats st en =
     Inr [(''batch_size'', PInt (int b)),
          (''linger_ms'', PInt (int l)),
          (''throughput'', PFloat (fl (py_float (int (length (take 1000 rs))) / fsub en st))),
          (''avg_latency'', PFloat (fl (sum_list lats / of_nat (length lats)))),
          (''p95_latency'', PFloat (sort lats ! nat ((19 * int (length lats)) div 20))),
          (''p99_latency'', PFloat (sort lats ! nat ((99 * int (length lats)) div 100))),
          (''duration'', PFloat (fsub en st))]"
  using assms percentile_lookup[OF assms(1,2)]
  by (simp add: batch_linger_metrics_def fdiv_def mean_def Let_def)

lemma batch_linger_metrics_nonempty:
  "batch_linger_metrics b l rs lats st en = Inr res \<Longrightarrow> lats \<noteq> [] \<and> fsub en st \<noteq> 0"
  by (auto simp: batch_linger_metrics_def fdiv_def mean_def Let_def split: sum.splits if_splits)

text \<open>
  C3.  For a non-empty latency sequence and a nonzero duration, the reduction returns a
  result whose p95 is the element
  of the ascending-sorted sequence at index \<open>floor(0.95 * n)\<close> and whose p99 is the one at
  index \<open>floor(0.99 * n)\<close>; for 1000 samples the p95 is \<open>sorted(latencies)[950]\<close>.
  The sequence has fewer than \<open>2^44\<close> samples: a run collects at most 1000, and a list
  of \<open>2^44\<close> elements does not fit the address space of a process.  (The bound is needed:
  the index is computed in floating point.)
\<close>

theorem nearest_rank_percentiles:
  assumes "lats \<noteq> []" "length lats < 2 ^ 44" "fsub en st \<noteq> 0"
  shows "\<exists>res. batch_linger_metrics b l rs lats st en = Inr res \<and>
     map_of res ''p95_latency'' =
       Some (PFloat (sort lats ! nat \<lfloor>95 / 100 * (of_nat (length lats) :: rat)\<rfloor>)) \<and>
     map_of res ''p99_latency'' =
       Some (PFloat (sort lats ! nat \<lfloor>99 / 100 * (of_nat (length lats) :: rat)\<rfloor>)) \<and>
     (length lats = 1000 \<longrightarrow> map_of res ''p95_latency'' = Some (PFloat (sort lats ! 950)))"
  unfolding floor_rank by (simp add: batch_linger_metrics_result[OF assms])

theorem nearest_rank_percentiles_witness:
  "(\<exists>res. batch_linger_metrics 16384 0 [] [30, 10, 20] 0 1 = Inr res \<and>
      map_of res ''p95_latency'' = Some (PFloat 30) \<and>
      map_of res ''p99_latency'' = Some (PFloat 30)) \<and>
   (\<exists>res. batch_linger_metrics 16384 0 [] (replicate 1000 7) 0 1 = Inr res \<and>
      map_of res ''p95_latency'' = Some (PFloat (sort (replicate 1000 7) ! 950)))"
proof -
  have d: "fsub 1 0 \<noteq> 0" by (simp add: fsub_def fl_1)
  have s: "sort [30, 10, 20 :: rat] = [10, 20, 30]" by simp
  have i: "nat \<lfloor>95 / 100 * (of_nat (length [30, 10, 20 :: rat]) :: rat)\<rfloor> = 2"
    "nat \<lfloor>99 / 100 * (of_nat (length [30, 10, 20 :: rat]) :: rat)\<rfloor> = 2"
    unfolding floor_rank by simp_all
  have "[30, 10, 20] \<noteq> ([]::rat list)" "length [30, 10, 20 :: rat] < 2 ^ 44" by simp_all
  from nearest_rank_percentiles[OF this d, of 16384 0 "[]"]
  have A: "\<exists>res. batch_linger_metrics 16384 0 [] [30, 10, 20] 0 1 = Inr res \<and>
      map_of res ''p95_latency'' = Some (PFloat 30) \<and>
      map_of res ''p99_latency'' = Some (PFloat 30)"
    unfolding s i by simp
  have "replicate 1000 (7::rat) \<noteq> []" "length (replicate 1000 (7::rat)) < 2 ^ 44" by simp_all
  from nearest_rank_percentiles[OF this d, of 16384 0 "[]"]
  have B: "\<exists>res. batch_linger_metrics 16384 0 [] (replicate 1000 7) 0 1 = Inr res \<and>
      map_of res ''p95_latency'' = Some (PFloat (sort (replicate 1000 7) ! 950))"
    by auto
  from A B show ?thesis by blast
qed

text \<open>
  C10.  For a non-empty latency sequence (of fewer than \<open>2^44\<close> samples) the indices
  \<open>int(n * 0.95)\<close> and \<open>int(n * 0.99)\<close> lie in \<open>0..n-1\<close>, so neither lookup into the
  sorted sequence raises \<open>IndexError\<close>.  The empty sequence never reaches the lookups:
  \<open>statistics.mean\<close> raises on it (or the division by a zero duration does, before).
\<close>

theorem percentile_indices_in_bounds:
  "(lats \<noteq> [] \<and> length lats < 2 ^ 44 \<longrightarrow>
      0 \<le> py_int (fmul (py_float (int (length lats))) lit_0_95) \<and>
      py_int (fmul (py_float (int (length lats))) lit_0_95) < int (length lats) \<and>
      0 \<le> py_int (fmul (py_float (int (length lats))) lit_0_99) \<and>
      py_int (fmul (py_float (int (length lats))) lit_0_99) < int (length lats) \<and>
      py_index (sort lats) (py_int (fmul (py_float (int (length lats))) lit_0_95)) \<noteq> Inl IndexError \<and>
      py_index (sort lats) (py_int (fmul (py_float (int (length lats))) lit_0_99)) \<noteq> Inl IndexError) \<and>
   mean [] = Inl StatisticsError \<and>
   batch_linger_metrics b l rs [] st en =
     (if fsub en st = 0 then Inl ZeroDivisionError else Inl StatisticsError)"
proof -
  have A: "0 \<le> py_int (fmul (py_float (int (length lats))) lit_0_95) \<and>
      py_int (fmul (py_float (int (length lats))) lit_0_95) < int (length lats) \<and>
      0 \<le> py_int (fmul (py_float (int (length lats))) lit_0_99) \<and>
      py_int (fmul (py_float (int (length lats))) lit_0_99) < int (length lats) \<and>
      py_index (sort lats) (py_int (fmul (py_float (int (length lats))) lit_0_95)) \<noteq> Inl IndexError \<and>
      py_index (sort lats) (py_int (fmul (py_float (int (length lats))) lit_0_99)) \<noteq> Inl IndexError"
    if h: "lats \<noteq> [] \<and> length lats < 2 ^ 44"
  proof -
    from h have n: "0 < int (length lats)" "int (length lats) < 2 ^ 44" by simp_all
    from h percentile_lookup[of lats] rank_bounds[OF n(1)] index_0_95[OF n] index_0_99[OF n]
    show ?thesis by simp
  qed
  have B: "mean [] = Inl StatisticsError" by (simp add: mean_def)
  have C: "batch_linger_metrics b l rs [] st en =
     (if fsub en st = 0 then Inl ZeroDivisionError else Inl StatisticsError)"
    by (simp add: batch_linger_metrics_def fdiv_def mean_def Let_def)
  from A B C show ?thesis by blast
qed

theorem percentile_indices_in_bounds_witness:
  "py_int (fmul (py_float (int (length (replicate 1000 (7::rat))))) lit_0_95) < 1000 \<and>
   py_int (fmul (py_float (int (length (replicate 1000 (7::rat))))) lit_0_99) < 1000 \<and>
   py_index (sort (replicate 1000 (7::rat)))
     (py_int (fmul (py_float (int (length (replicate 1000 (7::rat))))) lit_0_99)) \<noteq> Inl IndexError"
  using percentile_indices_in_bounds[of "replicate 1000 (7::rat)"] by simp

text \<open>
  C8 (as the code behaves).  A result of the batch/linger reduction has exactly the seven
  entries below: the mean, the p95 and the p99 latency, and no median; its p95 is at most
  its p99 (for fewer than \<open>2^44\<close> samples), both being entries of the same sorted
  sequence at ordered indices.
\<close>

theorem batch_linger_result_entries:
  assumes "batch_linger_metrics b l rs lats st en = Inr res" "length lats < 2 ^ 44"
  shows "map fst res =
           [''batch_size'', ''linger_ms'', ''throughput'', ''avg_latency'', ''p95_latency'',
            ''p99_latency'', ''duration''] \<and>
         (\<exists>m p q. map_of res ''avg_latency'' = Some (PFloat m) \<and>
            map_of res ''p95_latency'' = Some (PFloat p) \<and>
            map_of res ''p99_latency'' = Some (PFloat q) \<and> p \<le> q)"
proof -
  from batch_linger_metrics_nonempty[OF assms(1)] have ne: "lats \<noteq> []" "fsub en st \<noteq> 0"
    by simp_all
  from ne(1) have n: "0 < int (length lats)" by simp
  from rank_bounds[OF n]
  have "nat ((19 * int (length lats)) div 20) \<le> nat ((99 * int (length lats)) div 100)"
       "nat ((99 * int (length lats)) div 100) < length (sort lats)"
    by simp_all
  then have "sort lats ! nat ((19 * int (length lats)) div 20) \<le>
             sort lats ! nat ((99 * int (length lats)) div 100)"
    by (intro sorted_nth_mono) simp_all
  with batch_linger_metrics_result[OF ne(1) assms(2) ne(2), of b l rs] assms(1)
  show ?thesis by auto
qed

theorem batch_linger_result_entries_witness:
  "\<exists>res. batch_linger_metrics 16384 0 [] [30, 10, 20] 0 1 = Inr res \<and>
     map fst res =
       [''batch_size'', ''linger_ms'', ''throughput'', ''avg_latency'', ''p95_latency'',
        ''p99_latency'', ''duration''] \<and>
     (\<exists>m p q. map_of res ''avg_latency'' = Some (PFloat m) \<and>
        map_of res ''p95_latency'' = Some (PFloat p) \<and>
        map_of res ''p99_latency'' = Some (PFloat q) \<and> p \<le> q)"
proof -
  have d: "fsub 1 0 \<noteq> 0" by (simp add: fsub_def fl_1)
  from batch_linger_metrics_result[of "[30, 10, 20]" _ _ 16384 0 "[]", OF _ _ d]
  obtain res where r: "batch_linger_metrics 16384 0 [] [30, 10, 20] 0 1 = Inr res" by simp
  have l: "length [30, 10, 20 :: rat] < 2 ^ 44" by simp
  note t = batch_linger_result_entries[OF r l]
  show ?thesis
    by (intro exI[where x=res] conjI r t[THEN conjunct1] t[THEN conjunct2])
qed

text \<open>
  C8 as stated fails: the result of a run has no median entry.
\<close>

theorem no_median_counterexample:
  "\<exists>res. batch_linger_metrics 16384 0 [] [30, 10, 20] 0 1 = Inr res \<and>
     map fst res =
       [''batch_size'', ''linger_ms'', ''throughput'', ''avg_latency'', ''p95_latency'',
        ''p99_latency'', ''duration''] \<and>
     map_of res ''median_latency'' = None \<and> map_of res ''p50_latency'' = None"
proof -
  have d: "fsub 1 0 \<noteq> 0" by (simp add: fsub_def fl_1)
  from batch_linger_metrics_result[of "[30, 10, 20]" _ _ 16384 0 "[]", OF _ _ d]
  show ?thesis by simp
qed

subsection \<open>Percentiles of a run\<close>

lemma send_loop_length:
  "send_loop p topic rs acc s = (Inr lats, s') \<Longrightarrow> length lats = length acc + length rs"
proof (induction rs arbitrary: acc s)
  case Nil
  then show ?case by simp
next
  case (Cons a rs)
  from Cons.prems obtain s1 where
    "send_loop p topic rs (acc @ [latency_at s 0]) s1 = (Inr lats, s')"
    by (auto simp: send_loop_Cons split: option.splits)
  from Cons.IH[OF this] show ?case by simp
qed

text \<open>
  In a run of the batch/linger sweep the reduction is applied to the latencies of the
  loop: one per record of the sample, at most 1000.  So every result of a run has the
  nearest-rank percentiles of its own latency sequence.
\<close>

lemma batch_linger_run_percentiles:
  assumes "batch_linger_run f (b, l) s = (Inr res, s')"
  shows "\<exists>rs lats. files s f = Some rs \<and> length lats = length (take 1000 rs) \<and> lats \<noteq> [] \<and>
           map_of res ''p95_latency'' =
             Some (PFloat (sort lats ! nat \<lfloor>95 / 100 * (of_nat (length lats) :: rat)\<rfloor>)) \<and>
           map_of res ''p99_latency'' =
             Some (PFloat (sort lats ! nat \<lfloor>99 / 100 * (of_nat (length lats) :: rat)\<rfloor>))"
proof -
  from assms obtain rs where rs: "files s f = Some rs"
    by (cases "files s f") (auto simp: batch_linger_run_no_file)
  from assms rs obtain lats s3 st en where
    sl: "send_loop (opened s) ''hydro-batch-test'' (take 1000 rs) [] s3 = (Inr lats, st)" and
    m: "batch_linger_metrics b l rs lats en (clock st (ticks st)) = Inr res"
    by (auto simp: batch_linger_run_def io_defs split: prod.splits sum.splits)
  from send_loop_length[OF sl] have len: "length lats = length (take 1000 rs)" by simp
  then have b: "length lats < 2 ^ 44" by simp
  from batch_linger_metrics_nonempty[OF m] have ne: "lats \<noteq> []"
    "fsub (clock st (ticks st)) en \<noteq> 0" by simp_all
  from batch_linger_metrics_result[OF ne(1) b ne(2), of b l rs] m
  have "map_of res ''p95_latency'' =
             Some (PFloat (sort lats ! nat ((19 * int (length lats)) div 20))) \<and>
        map_of res ''p99_latency'' =
             Some (PFloat (sort lats ! nat ((99 * int (length lats)) div 100)))"
    by auto
  with rs len ne(1) show ?thesis unfolding floor_rank by blast
qed

end
